theory Spec2Isabelle
  imports Complex_Main
begin

section \<open>The random module\<close>

text \<open>
  The program draws every random value from the process-wide generator of Python's
  \<^verbatim>\<open>random\<close> module, seeded once (\<^verbatim>\<open>random.seed(42)\<close>) when \<^verbatim>\<open>ecosystem.py\<close> is imported.
  The generator is library code; it is represented by the sequence of raw outcomes it will
  deliver and a cursor into that sequence. Each library call below consumes one raw
  outcome (a shuffle of \<open>n\<close> items consumes \<open>n - 1\<close>). All theorems hold for every
  sequence of outcomes.
\<close>

record rng =
  outputs :: "nat \<Rightarrow> nat"
  cursor :: nat

definition next_raw :: "rng \<Rightarrow> nat \<times> rng" where
  "next_raw g = (outputs g (cursor g), g\<lparr>cursor := Suc (cursor g)\<rparr>)"

definition randbelow :: "nat \<Rightarrow> rng \<Rightarrow> nat \<times> rng" where
  "randbelow n g = (let (r, g') = next_raw g in (r mod n, g'))"

datatype error = ValueError

text \<open>\<^verbatim>\<open>random.randint(a, b)\<close>: an integer in \<open>[a, b]\<close>; raises ValueError on an empty range.\<close>

definition random_randint :: "int \<Rightarrow> int \<Rightarrow> rng \<Rightarrow> error + (int \<times> rng)" where
  "random_randint a b g =
     (if b < a then Inl ValueError
      else let (r, g') = randbelow (nat (b - a + 1)) g in Inr (a + int r, g'))"

text \<open>\<^verbatim>\<open>random.random()\<close>: a multiple of \<open>2\<^sup>-\<^sup>5\<^sup>3\<close> in \<open>[0, 1)\<close>, kept as an exact rational.\<close>

definition random_random :: "rng \<Rightarrow> rat \<times> rng" where
  "random_random g = (let (r, g') = next_raw g in (of_nat (r mod 2 ^ 53) / 2 ^ 53, g'))"

text \<open>
  \<^verbatim>\<open>random.choice(seq)\<close>. Every call in the program is guarded by a test that the
  sequence is not empty, so the index is always in range.
\<close>

definition random_choice :: "'a list \<Rightarrow> rng \<Rightarrow> 'a \<times> rng" where
  "random_choice xs g = (let (i, g') = randbelow (length xs) g in (xs ! i, g'))"

text \<open>
  \<^verbatim>\<open>random.shuffle(x)\<close>:
  \<^verbatim>\<open>for i in reversed(range(1, len(x))): j = randbelow(i + 1); x[i], x[j] = x[j], x[i]\<close>
\<close>

definition swap :: "'a list \<Rightarrow> nat \<Rightarrow> nat \<Rightarrow> 'a list" where
  "swap xs i j = xs[i := xs ! j, j := xs ! i]"

fun shuffle_loop :: "nat \<Rightarrow> 'a list \<Rightarrow> rng \<Rightarrow> 'a list \<times> rng" where
  "shuffle_loop 0 xs g = (xs, g)"
| "shuffle_loop (Suc k) xs g =
     (let (j, g') = randbelow (Suc k + 1) g in shuffle_loop k (swap xs (Suc k) j) g')"

definition random_shuffle :: "'a list \<Rightarrow> rng \<Rightarrow> 'a list \<times> rng" where
  "random_shuffle xs g = shuffle_loop (length xs - 1) xs g"

section \<open>organisms.py: constants and objects\<close>

text \<open>The symbols are the UTF-8 bytes of U+2618, U+1F407 and U+1F405.\<close>

definition PLANT_SYMBOL :: string where
  "PLANT_SYMBOL = [CHR 0xE2, CHR 0x98, CHR 0x98]"

definition PLANT_REPRODUCTION_CHANCE :: rat where
  "PLANT_REPRODUCTION_CHANCE = 10 / 100"

definition METABOLIC_ENERGY_COST :: int where
  "METABOLIC_ENERGY_COST = 1"

definition HERBIVORE_SYMBOL :: string where
  "HERBIVORE_SYMBOL = [CHR 0xF0, CHR 0x9F, CHR 0x90, CHR 0x87]"

definition HERBIVORE_INITIAL_ENERGY :: int where
  "HERBIVORE_INITIAL_ENERGY = 15"

definition HERBIVORE_EAT_GAIN :: int where
  "HERBIVORE_EAT_GAIN = 10"

definition HERBIVORE_REPRODUCTION_ENERGY_THRESHOLD :: int where
  "HERBIVORE_REPRODUCTION_ENERGY_THRESHOLD = 20"

definition HERBIVORE_REPRODUCTION_CHANCE :: rat where
  "HERBIVORE_REPRODUCTION_CHANCE = 15 / 100"

definition HERBIVORE_REPRODUCTION_COST :: int where
  "HERBIVORE_REPRODUCTION_COST = 8"

definition HERBIVORE_CHILD_ENERGY :: int where
  "HERBIVORE_CHILD_ENERGY = 10"

definition CARNIVORE_SYMBOL :: string where
  "CARNIVORE_SYMBOL = [CHR 0xF0, CHR 0x9F, CHR 0x90, CHR 0x85]"

definition CARNIVORE_INITIAL_ENERGY :: int where
  "CARNIVORE_INITIAL_ENERGY = 25"

definition CARNIVORE_EAT_GAIN :: int where
  "CARNIVORE_EAT_GAIN = 15"

definition CARNIVORE_REPRODUCTION_ENERGY_THRESHOLD :: int where
  "CARNIVORE_REPRODUCTION_ENERGY_THRESHOLD = 40"

definition CARNIVORE_REPRODUCTION_CHANCE :: rat where
  "CARNIVORE_REPRODUCTION_CHANCE = 10 / 100"

definition CARNIVORE_REPRODUCTION_COST :: int where
  "CARNIVORE_REPRODUCTION_COST = 20"

definition CARNIVORE_CHILD_ENERGY :: int where
  "CARNIVORE_CHILD_ENERGY = 20"

text \<open>
  The three concrete classes. \<^verbatim>\<open>isinstance(org, C)\<close> for one of them is equality of the
  class tag, since none of the three derives from another.
\<close>

datatype species = Plant | Herbivore | Carnivore

text \<open>
  An object of class Organism. The attributes \<^verbatim>\<open>x\<close> and \<^verbatim>\<open>y\<close> are the fields \<open>org_x\<close> and
  \<open>org_y\<close>. Only animals have the attribute \<^verbatim>\<open>energy\<close>; the field of a Plant is 0 and is
  neither read nor written, because every access to it is in a method of Animal or on a
  freshly made Herbivore or Carnivore.
\<close>

record organism =
  org_x :: int
  org_y :: int
  symbol :: string
  alive :: bool
  cls :: species
  energy :: int

definition Plant_init :: "int \<Rightarrow> int \<Rightarrow> organism" where
  "Plant_init px py =
     \<lparr>org_x = px, org_y = py, symbol = PLANT_SYMBOL, alive = True, cls = Plant, energy = 0\<rparr>"

definition Herbivore_init :: "int \<Rightarrow> int \<Rightarrow> organism" where
  "Herbivore_init px py =
     \<lparr>org_x = px, org_y = py, symbol = HERBIVORE_SYMBOL, alive = True, cls = Herbivore,
      energy = HERBIVORE_INITIAL_ENERGY\<rparr>"

definition Carnivore_init :: "int \<Rightarrow> int \<Rightarrow> organism" where
  "Carnivore_init px py =
     \<lparr>org_x = px, org_y = py, symbol = CARNIVORE_SYMBOL, alive = True, cls = Carnivore,
      energy = CARNIVORE_INITIAL_ENERGY\<rparr>"

text \<open>The call \<^verbatim>\<open>organism_class(x, y)\<close> of a class held in a variable.\<close>

fun construct :: "species \<Rightarrow> int \<Rightarrow> int \<Rightarrow> organism" where
  "construct Plant px py = Plant_init px py"
| "construct Herbivore px py = Herbivore_init px py"
| "construct Carnivore px py = Carnivore_init px py"

section \<open>ecosystem.py: the world\<close>

text \<open>
  Organisms are mutable objects shared by reference between the lists of the ecosystem.
  The store \<open>heap\<close> holds every object made so far; a reference is an index into it and a
  new object gets the next index. The generator of the random module is carried in
  the same state (\<open>rng\<close>). The two queues exist from the start as empty lists (the source
  creates them after populating, and nothing reads them before).
\<close>

type_synonym ref = nat

record ecosystem =
  width :: int
  height :: int
  organisms :: "ref list"
  total_ticks :: int
  initial_helper_set :: "(int \<times> int) set"
  temp_added_organisms :: "ref list"
  temp_removed_organisms :: "ref list"
  heap :: "organism list"
  rng :: rng

definition DIRECTIONS :: "(int \<times> int) list" where
  "DIRECTIONS = [(-1, 0), (1, 0), (0, -1), (0, 1), (-1, -1), (-1, 1), (1, -1), (1, 1)]"

definition obj :: "ecosystem \<Rightarrow> ref \<Rightarrow> organism" where
  "obj e r = heap e ! r"

definition modify :: "ref \<Rightarrow> (organism \<Rightarrow> organism) \<Rightarrow> ecosystem \<Rightarrow> ecosystem" where
  "modify r f e = e\<lparr>heap := (heap e)[r := f (heap e ! r)]\<rparr>"

definition alloc :: "organism \<Rightarrow> ecosystem \<Rightarrow> ref \<times> ecosystem" where
  "alloc ob e = (length (heap e), e\<lparr>heap := heap e @ [ob]\<rparr>)"

subsection \<open>Initial population\<close>

text \<open>
  \<^verbatim>\<open>random_empty_cell\<close> is a \<^verbatim>\<open>while True\<close> loop: it returns only when a drawn cell is not
  in the helper set. Not returning is the value \<open>None\<close>; a ValueError of \<^verbatim>\<open>randint\<close>
  (an empty range, when a dimension is not positive) is \<open>Some (Inl ValueError)\<close>.
\<close>

partial_function (option)
  random_empty_cell :: "ecosystem \<Rightarrow> (error + ((int \<times> int) \<times> ecosystem)) option"
where
  "random_empty_cell e =
     (case random_randint 0 (width e - 1) (rng e) of
        Inl err \<Rightarrow> Some (Inl err)
      | Inr (px, g1) \<Rightarrow>
          (case random_randint 0 (height e - 1) g1 of
             Inl err \<Rightarrow> Some (Inl err)
           | Inr (py, g2) \<Rightarrow>
               if (px, py) \<notin> initial_helper_set e
               then Some (Inr ((px, py),
                      e\<lparr>initial_helper_set := insert (px, py) (initial_helper_set e), rng := g2\<rparr>))
               else random_empty_cell (e\<lparr>rng := g2\<rparr>)))"

text \<open>The truth value of a pair: a tuple of two elements is never empty, hence always true.\<close>

definition truthy :: "int \<times> int \<Rightarrow> bool" where
  "truthy c = True"

text \<open>\<^verbatim>\<open>populate\<close>: the loop \<^verbatim>\<open>for _ in range(count)\<close> as recursion on the number of rounds left.\<close>

fun populate_loop :: "species \<Rightarrow> nat \<Rightarrow> ecosystem \<Rightarrow> (error + ecosystem) option" where
  "populate_loop organism_class 0 e = Some (Inr e)"
| "populate_loop organism_class (Suc n) e =
     (case random_empty_cell e of
        None \<Rightarrow> None
      | Some (Inl err) \<Rightarrow> Some (Inl err)
      | Some (Inr ((px, py), e1)) \<Rightarrow>
          if truthy (px, py)
          then (let (r, e2) = alloc (construct organism_class px py) e1
                in populate_loop organism_class n (e2\<lparr>organisms := organisms e2 @ [r]\<rparr>))
          else populate_loop organism_class n e1)"

definition populate :: "species \<Rightarrow> int \<Rightarrow> ecosystem \<Rightarrow> (error + ecosystem) option" where
  "populate organism_class count e = populate_loop organism_class (nat count) e"

text \<open>The constructor, up to the first display.\<close>

definition Ecosystem_init ::
  "int \<Rightarrow> int \<Rightarrow> int \<Rightarrow> int \<Rightarrow> int \<Rightarrow> int \<Rightarrow> rng \<Rightarrow> (error + ecosystem) option" where
  "Ecosystem_init w h initial_plants initial_herbivores initial_carnivores ticks g =
     (let e0 = \<lparr>width = w, height = h, organisms = [], total_ticks = ticks,
                initial_helper_set = {}, temp_added_organisms = [],
                temp_removed_organisms = [], heap = [], rng = g\<rparr>
      in case populate Plant initial_plants e0 of
           None \<Rightarrow> None
         | Some (Inl err) \<Rightarrow> Some (Inl err)
         | Some (Inr e1) \<Rightarrow>
            (case populate Herbivore initial_herbivores e1 of
               None \<Rightarrow> None
             | Some (Inl err) \<Rightarrow> Some (Inl err)
             | Some (Inr e2) \<Rightarrow>
                (case populate Carnivore initial_carnivores e2 of
                   None \<Rightarrow> None
                 | Some (Inl err) \<Rightarrow> Some (Inl err)
                 | Some (Inr e3) \<Rightarrow> Some (Inr (e3\<lparr>initial_helper_set := {}\<rparr>)))))"

subsection \<open>Queries and mutations\<close>

definition get_organism_at :: "ecosystem \<Rightarrow> int \<Rightarrow> int \<Rightarrow> ref list" where
  "get_organism_at e px py =
     filter (\<lambda>r. org_x (obj e r) = px \<and> org_y (obj e r) = py \<and> alive (obj e r))
       (organisms e @ temp_added_organisms e)"

definition get_adjacent_cells :: "ecosystem \<Rightarrow> int \<Rightarrow> int \<Rightarrow> (int \<times> int) list" where
  "get_adjacent_cells e px py =
     filter (\<lambda>(nx, ny). 0 \<le> nx \<and> nx < width e \<and> 0 \<le> ny \<and> ny < height e)
       (map (\<lambda>(dx, dy). (px + dx, py + dy)) DIRECTIONS)"

definition get_adjacent_empty_cells :: "ecosystem \<Rightarrow> int \<Rightarrow> int \<Rightarrow> (int \<times> int) list" where
  "get_adjacent_empty_cells e px py =
     filter (\<lambda>(nx, ny). get_organism_at e nx ny = []) (get_adjacent_cells e px py)"

definition get_adjacent_organisms :: "ecosystem \<Rightarrow> int \<Rightarrow> int \<Rightarrow> species \<Rightarrow> ref list" where
  "get_adjacent_organisms e px py target_organism_type =
     concat (map (\<lambda>(nx, ny).
         filter (\<lambda>r. org_x (obj e r) = nx \<and> org_y (obj e r) = ny
                     \<and> cls (obj e r) = target_organism_type \<and> alive (obj e r))
           (organisms e @ temp_added_organisms e))
       (get_adjacent_cells e px py))"

definition add_organism :: "ecosystem \<Rightarrow> ref \<Rightarrow> ecosystem" where
  "add_organism e r = e\<lparr>temp_added_organisms := temp_added_organisms e @ [r]\<rparr>"

definition remove_organism :: "ecosystem \<Rightarrow> ref \<Rightarrow> ecosystem" where
  "remove_organism e r =
     (let e1 = modify r (\<lambda>ob. ob\<lparr>alive := False\<rparr>) e
      in e1\<lparr>temp_removed_organisms := temp_removed_organisms e1 @ [r]\<rparr>)"

definition move_organism :: "ecosystem \<Rightarrow> ref \<Rightarrow> int \<Rightarrow> int \<Rightarrow> ecosystem" where
  "move_organism e r new_x new_y = modify r (\<lambda>ob. ob\<lparr>org_x := new_x, org_y := new_y\<rparr>) e"

section \<open>organisms.py: behaviour\<close>

definition Plant_update :: "ref \<Rightarrow> ecosystem \<Rightarrow> ecosystem" where
  "Plant_update self e =
     (let (u, g1) = random_random (rng e); e1 = e\<lparr>rng := g1\<rparr> in
      if u < PLANT_REPRODUCTION_CHANCE then
        (let empty_cells = get_adjacent_empty_cells e1 (org_x (obj e1 self)) (org_y (obj e1 self)) in
         if empty_cells \<noteq> [] then
           (let ((new_x, new_y), g2) = random_choice empty_cells (rng e1);
                (new_plant, e2) = alloc (Plant_init new_x new_y) (e1\<lparr>rng := g2\<rparr>)
            in add_organism e2 new_plant)
         else e1)
      else e1)"

definition Animal_update :: "ref \<Rightarrow> ecosystem \<Rightarrow> ecosystem" where
  "Animal_update self e = modify self (\<lambda>ob. ob\<lparr>energy := energy ob - METABOLIC_ENERGY_COST\<rparr>) e"

text \<open>
  \<^verbatim>\<open>Animal.move\<close> up to its call of \<^verbatim>\<open>move_organism\<close>: the state at the call and the target
  passed, or \<open>None\<close> when there is no empty cell and no call is made.
\<close>

definition move_call :: "ref \<Rightarrow> ecosystem \<Rightarrow> (ecosystem \<times> int \<times> int) option" where
  "move_call self e =
     (let empty_cells = get_adjacent_empty_cells e (org_x (obj e self)) (org_y (obj e self)) in
      if empty_cells \<noteq> [] then
        (let ((new_x, new_y), g1) = random_choice empty_cells (rng e)
         in Some (e\<lparr>rng := g1\<rparr>, new_x, new_y))
      else None)"

definition move :: "ref \<Rightarrow> ecosystem \<Rightarrow> ecosystem" where
  "move self e =
     (case move_call self e of
        Some (e1, new_x, new_y) \<Rightarrow> move_organism e1 self new_x new_y
      | None \<Rightarrow> e)"

text \<open>
  \<^verbatim>\<open>Animal.eat\<close> up to its call of \<^verbatim>\<open>move_organism\<close>: the prey chosen and the state at the
  call, or \<open>None\<close> when the prey list is empty.
\<close>

definition eat_call :: "ref \<Rightarrow> species \<Rightarrow> ecosystem \<Rightarrow> (ref \<times> ecosystem) option" where
  "eat_call self prey_class e =
     (let prey_list = get_adjacent_organisms e (org_x (obj e self)) (org_y (obj e self)) prey_class in
      if prey_list \<noteq> [] then
        (let (prey, g1) = random_choice prey_list (rng e) in Some (prey, e\<lparr>rng := g1\<rparr>))
      else None)"

definition eat :: "ref \<Rightarrow> species \<Rightarrow> int \<Rightarrow> ecosystem \<Rightarrow> bool \<times> ecosystem" where
  "eat self prey_class eat_gain e =
     (case eat_call self prey_class e of
        Some (prey, e1) \<Rightarrow>
          (let e2 = move_organism e1 self (org_x (obj e1 prey)) (org_y (obj e1 prey));
               e3 = remove_organism e2 prey;
               e4 = modify self (\<lambda>ob. ob\<lparr>energy := energy ob + eat_gain\<rparr>) e3
           in (True, e4))
      | None \<Rightarrow> (False, e))"

text \<open>
  \<^verbatim>\<open>Animal.reproduce\<close>. The condition is a short-circuit \<^verbatim>\<open>and\<close>: the generator is consulted
  only when the energy reaches the threshold.
\<close>

definition reproduce ::
  "ref \<Rightarrow> int \<Rightarrow> rat \<Rightarrow> int \<Rightarrow> species \<Rightarrow> int \<Rightarrow> ecosystem \<Rightarrow> bool \<times> ecosystem" where
  "reproduce self reproduction_energy_threshold reproduction_chance reproduction_cost
       child_class child_energy e =
     (if energy (obj e self) \<ge> reproduction_energy_threshold then
        (let (u, g1) = random_random (rng e); e1 = e\<lparr>rng := g1\<rparr> in
         if u < reproduction_chance then
           (let empty_cells =
                  get_adjacent_empty_cells e1 (org_x (obj e1 self)) (org_y (obj e1 self)) in
            if empty_cells \<noteq> [] then
              (let ((new_x, new_y), g2) = random_choice empty_cells (rng e1);
                   (new_child, e2) = alloc (construct child_class new_x new_y) (e1\<lparr>rng := g2\<rparr>);
                   e3 = modify new_child (\<lambda>ob. ob\<lparr>energy := child_energy\<rparr>) e2;
                   e4 = add_organism e3 new_child;
                   e5 = modify self (\<lambda>ob. ob\<lparr>energy := energy ob - reproduction_cost\<rparr>) e4
               in (True, e5))
            else (False, e1))
         else (False, e1))
      else (False, e))"

definition survive :: "ref \<Rightarrow> ecosystem \<Rightarrow> bool \<times> ecosystem" where
  "survive self e =
     (if energy (obj e self) \<le> 0 then (False, remove_organism e self) else (True, e))"

text \<open>
  The action phase shared by \<^verbatim>\<open>Herbivore.update\<close> and \<^verbatim>\<open>Carnivore.update\<close>, with the flag
  \<^verbatim>\<open>acted\<close>: eat, else reproduce, else move.
\<close>

definition Herbivore_act :: "ref \<Rightarrow> ecosystem \<Rightarrow> ecosystem" where
  "Herbivore_act self e =
     (let (ate, e1) = eat self Plant HERBIVORE_EAT_GAIN e in
      if ate then e1
      else
        (let (bred, e2) =
               reproduce self HERBIVORE_REPRODUCTION_ENERGY_THRESHOLD HERBIVORE_REPRODUCTION_CHANCE
                 HERBIVORE_REPRODUCTION_COST Herbivore HERBIVORE_CHILD_ENERGY e1
         in if bred then e2 else move self e2))"

definition Herbivore_update :: "ref \<Rightarrow> ecosystem \<Rightarrow> ecosystem" where
  "Herbivore_update self e = snd (survive self (Herbivore_act self (Animal_update self e)))"

definition Carnivore_act :: "ref \<Rightarrow> ecosystem \<Rightarrow> ecosystem" where
  "Carnivore_act self e =
     (let (ate, e1) = eat self Herbivore CARNIVORE_EAT_GAIN e in
      if ate then e1
      else
        (let (bred, e2) =
               reproduce self CARNIVORE_REPRODUCTION_ENERGY_THRESHOLD CARNIVORE_REPRODUCTION_CHANCE
                 CARNIVORE_REPRODUCTION_COST Carnivore CARNIVORE_CHILD_ENERGY e1
         in if bred then e2 else move self e2))"

definition Carnivore_update :: "ref \<Rightarrow> ecosystem \<Rightarrow> ecosystem" where
  "Carnivore_update self e = snd (survive self (Carnivore_act self (Animal_update self e)))"

text \<open>The dynamic dispatch of \<^verbatim>\<open>org.update(self)\<close> on the class of the object.\<close>

definition update :: "ref \<Rightarrow> ecosystem \<Rightarrow> ecosystem" where
  "update r e =
     (case cls (obj e r) of
        Plant \<Rightarrow> Plant_update r e
      | Herbivore \<Rightarrow> Herbivore_update r e
      | Carnivore \<Rightarrow> Carnivore_update r e)"

section \<open>ecosystem.py: the simulation loop\<close>

text \<open>One round of \<^verbatim>\<open>for org in list(organisms): if org.alive: org.update(self)\<close>.\<close>

definition turn :: "ref \<Rightarrow> ecosystem \<Rightarrow> ecosystem" where
  "turn r e = (if alive (obj e r) then update r e else e)"

fun act_all :: "ref list \<Rightarrow> ecosystem \<Rightarrow> ecosystem" where
  "act_all [] e = e"
| "act_all (r # rs) e = act_all rs (turn r e)"

text \<open>\<^verbatim>\<open>for org in self.temp_added_organisms: if org.alive: self.organisms.append(org)\<close>\<close>

fun commit_births :: "ref list \<Rightarrow> ecosystem \<Rightarrow> ecosystem" where
  "commit_births [] e = e"
| "commit_births (r # rs) e =
     commit_births rs (if alive (obj e r) then e\<lparr>organisms := organisms e @ [r]\<rparr> else e)"

text \<open>
  \<^verbatim>\<open>for org in self.temp_removed_organisms: if org in self.organisms: self.organisms.remove(org)\<close>;
  membership and \<^verbatim>\<open>remove\<close> compare by identity, and \<^verbatim>\<open>remove\<close> deletes the first occurrence.
\<close>

fun commit_deaths :: "ref list \<Rightarrow> ecosystem \<Rightarrow> ecosystem" where
  "commit_deaths [] e = e"
| "commit_deaths (r # rs) e =
     commit_deaths rs (if r \<in> set (organisms e) then e\<lparr>organisms := remove1 r (organisms e)\<rparr> else e)"

definition commit :: "ecosystem \<Rightarrow> ecosystem" where
  "commit e =
     (let e1 = commit_births (temp_added_organisms e) e;
          e2 = commit_deaths (temp_removed_organisms e1) e1
      in e2\<lparr>temp_added_organisms := [], temp_removed_organisms := []\<rparr>)"

text \<open>The body of the loop over ticks, without the display and the delay.\<close>

definition tick :: "ecosystem \<Rightarrow> ecosystem" where
  "tick e =
     (let (order, g1) = random_shuffle (organisms e) (rng e)
      in commit (act_all order (e\<lparr>rng := g1\<rparr>)))"

fun run_ticks :: "nat \<Rightarrow> ecosystem \<Rightarrow> ecosystem" where
  "run_ticks 0 e = e"
| "run_ticks (Suc n) e = run_ticks n (tick e)"

definition run :: "ecosystem \<Rightarrow> ecosystem" where
  "run e = run_ticks (nat (total_ticks e)) e"

section \<open>ecosystem.py: display and the whole program\<close>











section \<open>Well-formed states, relations between states and sample states\<close>

text \<open>Every reference held by the ecosystem denotes an object of the store.\<close>

definition refs_ok :: "ecosystem \<Rightarrow> bool" where
  "refs_ok e = (\<forall>r \<in> set (organisms e @ temp_added_organisms e). r < length (heap e))"

text \<open>A carnivore at \<open>(0, 0)\<close> and a herbivore born this tick at \<open>(1, 0)\<close>, still in the birth queue.\<close>

definition newborn_state :: ecosystem where
  "newborn_state =
     \<lparr>width = 2, height = 1, organisms = [0], total_ticks = 1, initial_helper_set = {},
      temp_added_organisms = [1], temp_removed_organisms = [],
      heap = [Carnivore_init 0 0, (Herbivore_init 1 0)\<lparr>energy := HERBIVORE_CHILD_ENERGY\<rparr>],
      rng = \<lparr>outputs = (\<lambda>n. n), cursor = 0\<rparr>\<rparr>"

definition sample_rng :: rng where
  "sample_rng = \<lparr>outputs = (\<lambda>n. (n * n + 3 * n) div 2), cursor = 0\<rparr>"

definition grazing_state :: ecosystem where
  "grazing_state =
     \<lparr>width = 2, height = 1, organisms = [0, 1], total_ticks = 1, initial_helper_set = {},
      temp_added_organisms = [], temp_removed_organisms = [],
      heap = [Herbivore_init 0 0, Plant_init 1 0], rng = sample_rng\<rparr>"

definition eaten_state :: ecosystem where
  "eaten_state =
     grazing_state\<lparr>temp_removed_organisms := [1],
        heap := [\<lparr>org_x = 1, org_y = 0, symbol = HERBIVORE_SYMBOL, alive = True, cls = Herbivore,
                   energy = 24\<rparr>, (Plant_init 1 0)\<lparr>alive := False\<rparr>],
        rng := sample_rng\<lparr>cursor := 1\<rparr>\<rparr>"

definition breeding_state :: ecosystem where
  "breeding_state =
     \<lparr>width = 2, height = 2, organisms = [0], total_ticks = 1, initial_helper_set = {},
      temp_added_organisms = [], temp_removed_organisms = [],
      heap = [(Herbivore_init 0 0)\<lparr>energy := 30\<rparr>], rng = sample_rng\<rparr>"

text \<open>
  The elementary state changes out of which every turn is composed: a draw from the
  generator, a change of the actor's energy, a relocation to a cell without alive occupant,
  the capture of an adjacent prey, a birth on a cell without alive occupant, and the actor's
  own death.
\<close>

inductive atomic :: "ref \<Rightarrow> ecosystem \<Rightarrow> ecosystem \<Rightarrow> bool" for self :: ref where
  draw: "atomic self e (e\<lparr>rng := g\<rparr>)"
| energy: "alive (obj e self) \<Longrightarrow> atomic self e (modify self (\<lambda>ob. ob\<lparr>energy := k ob\<rparr>) e)"
| relocate: "alive (obj e self) \<Longrightarrow> get_organism_at e nx ny = [] \<Longrightarrow>
     atomic self e (move_organism e self nx ny)"
| devour: "alive (obj e self) \<Longrightarrow>
     prey \<in> set (get_adjacent_organisms e (org_x (obj e self)) (org_y (obj e self)) c) \<Longrightarrow>
     atomic self e
       (remove_organism (move_organism e self (org_x (obj e prey)) (org_y (obj e prey))) prey)"
| birth: "get_organism_at e (org_x ob) (org_y ob) = [] \<Longrightarrow> alive ob \<Longrightarrow>
     atomic self e (add_organism (snd (alloc ob e)) (length (heap e)))"
| death: "atomic self e (remove_organism e self)"

text \<open>Objects that are dead in \<open>e\<close> are the same objects in \<open>e'\<close>.\<close>

definition dead_kept :: "ecosystem \<Rightarrow> ecosystem \<Rightarrow> bool" where
  "dead_kept e e' =
     (length (heap e) \<le> length (heap e')
      \<and> (\<forall>r < length (heap e). \<not> alive (obj e r) \<longrightarrow> obj e' r = obj e r))"

text \<open>
  What a turn of \<open>self\<close> leaves alone: main storage, the dimensions, the entries already in
  the queues, and every attribute but the alive flag of every other object.
\<close>

definition turn_frame :: "ref \<Rightarrow> ecosystem \<Rightarrow> ecosystem \<Rightarrow> bool" where
  "turn_frame self e e' =
     (organisms e' = organisms e \<and> width e' = width e \<and> height e' = height e
      \<and> length (heap e) \<le> length (heap e')
      \<and> (\<exists>bs. temp_added_organisms e' = temp_added_organisms e @ bs)
      \<and> (\<exists>ds. temp_removed_organisms e' = temp_removed_organisms e @ ds)
      \<and> (\<forall>q < length (heap e). q \<noteq> self \<longrightarrow>
            org_x (obj e' q) = org_x (obj e q) \<and> org_y (obj e' q) = org_y (obj e q)
            \<and> energy (obj e' q) = energy (obj e q) \<and> symbol (obj e' q) = symbol (obj e q)
            \<and> cls (obj e' q) = cls (obj e q) \<and> (alive (obj e' q) \<longrightarrow> alive (obj e q))))"

text \<open>
  The occupancy invariant over main storage and the birth queue: the references are valid and
  pairwise different, and two alive organisms never stand on the same cell.
\<close>

definition occupancy :: "ecosystem \<Rightarrow> bool" where
  "occupancy e =
     (refs_ok e \<and> distinct (organisms e @ temp_added_organisms e)
      \<and> (\<forall>r1 \<in> set (organisms e @ temp_added_organisms e).
           \<forall>r2 \<in> set (organisms e @ temp_added_organisms e).
             alive (obj e r1) \<and> alive (obj e r2) \<and> org_x (obj e r1) = org_x (obj e r2)
             \<and> org_y (obj e r1) = org_y (obj e r2) \<longrightarrow> r1 = r2))"

text \<open>What the action phase leaves alone.\<close>

definition phase_frame :: "ecosystem \<Rightarrow> ecosystem \<Rightarrow> bool" where
  "phase_frame e e' =
     (refs_ok e' \<and> organisms e' = organisms e \<and> dead_kept e e'
      \<and> (\<exists>ds. temp_removed_organisms e' = temp_removed_organisms e @ ds))"

text \<open>
  The state while the constructor populates: occupancy holds, the queues are empty, and every
  organism stands on a cell recorded in the helper set.
\<close>

definition seeded :: "ecosystem \<Rightarrow> bool" where
  "seeded e =
     (occupancy e \<and> temp_added_organisms e = [] \<and> temp_removed_organisms e = []
      \<and> (\<forall>r \<in> set (organisms e). (org_x (obj e r), org_y (obj e r)) \<in> initial_helper_set e))"

definition seeded_state :: ecosystem where
  "seeded_state =
     \<lparr>width = 2, height = 2, organisms = [0, 1], total_ticks = 1, initial_helper_set = {},
      temp_added_organisms = [], temp_removed_organisms = [],
      heap = [Plant_init 0 0, Herbivore_init 1 1], rng = sample_rng\<lparr>cursor := 4\<rparr>\<rparr>"

definition seed0 :: ecosystem where
  "seed0 =
     \<lparr>width = 2, height = 2, organisms = [], total_ticks = 1, initial_helper_set = {},
      temp_added_organisms = [], temp_removed_organisms = [], heap = [], rng = sample_rng\<rparr>"

definition seed1 :: ecosystem where
  "seed1 =
     \<lparr>width = 2, height = 2, organisms = [0], total_ticks = 1, initial_helper_set = {(0, 0)},
      temp_added_organisms = [], temp_removed_organisms = [], heap = [Plant_init 0 0],
      rng = sample_rng\<lparr>cursor := 2\<rparr>\<rparr>"

text \<open>A single herbivore with energy \<open>k\<close> on a grid of one cell: it can neither eat nor move.\<close>

definition lonely :: "int \<Rightarrow> ecosystem" where
  "lonely k =
     \<lparr>width = 1, height = 1, organisms = [0], total_ticks = 15, initial_helper_set = {},
      temp_added_organisms = [], temp_removed_organisms = [],
      heap = [(Herbivore_init 0 0)\<lparr>energy := k\<rparr>], rng = sample_rng\<lparr>cursor := 2\<rparr>\<rparr>"

definition lonely0 :: ecosystem where
  "lonely0 =
     \<lparr>width = 1, height = 1, organisms = [], total_ticks = 15, initial_helper_set = {},
      temp_added_organisms = [], temp_removed_organisms = [], heap = [], rng = sample_rng\<rparr>"

text \<open>
  The \<open>k\<close>-th cell the placement search will try from the current position of the generator
  (each try consumes two outcomes), for positive dimensions.
\<close>

definition drawn_cell :: "ecosystem \<Rightarrow> nat \<Rightarrow> int \<times> int" where
  "drawn_cell e k =
     (int (outputs (rng e) (cursor (rng e) + 2 * k) mod nat (width e)),
      int (outputs (rng e) (cursor (rng e) + 2 * k + 1) mod nat (height e)))"

text \<open>A grid of one cell whose cell is taken.\<close>

definition full_state :: ecosystem where
  "full_state =
     \<lparr>width = 1, height = 1, organisms = [0], total_ticks = 1, initial_helper_set = {(0, 0)},
      temp_added_organisms = [], temp_removed_organisms = [], heap = [Plant_init 0 0],
      rng = sample_rng\<lparr>cursor := 2\<rparr>\<rparr>"

definition full0 :: ecosystem where
  "full0 =
     \<lparr>width = 1, height = 1, organisms = [], total_ticks = 1, initial_helper_set = {},
      temp_added_organisms = [], temp_removed_organisms = [], heap = [], rng = sample_rng\<rparr>"

text \<open>
  Between \<open>e\<close> and \<open>e'\<close>, every object other than \<open>self\<close> is either the same or was alive and
  differs only in its alive flag, now false.
\<close>

definition flag_only :: "ref \<Rightarrow> ecosystem \<Rightarrow> ecosystem \<Rightarrow> bool" where
  "flag_only self e e' =
     (length (heap e) \<le> length (heap e')
      \<and> (\<forall>q < length (heap e). q \<noteq> self \<longrightarrow>
            obj e' q = obj e q \<or> (alive (obj e q) \<and> obj e' q = (obj e q)\<lparr>alive := False\<rparr>)))"

text \<open>The cells of the grid.\<close>

definition grid_cells :: "ecosystem \<Rightarrow> (int \<times> int) set" where
  "grid_cells e = {0..<width e} \<times> {0..<height e}"

text \<open>A generator that always delivers 0, and the 2 by 2 grid after it has placed one plant.\<close>

definition zero_rng :: rng where
  "zero_rng = \<lparr>outputs = (\<lambda>n. 0), cursor = 0\<rparr>"

definition stuck0 :: ecosystem where
  "stuck0 =
     \<lparr>width = 2, height = 2, organisms = [], total_ticks = 1, initial_helper_set = {},
      temp_added_organisms = [], temp_removed_organisms = [], heap = [], rng = zero_rng\<rparr>"

definition stuck_state :: ecosystem where
  "stuck_state =
     \<lparr>width = 2, height = 2, organisms = [0], total_ticks = 1, initial_helper_set = {(0, 0)},
      temp_added_organisms = [], temp_removed_organisms = [], heap = [Plant_init 0 0],
      rng = zero_rng\<lparr>cursor := 2\<rparr>\<rparr>"

text \<open>
  Two generator states deliver the same outcomes from their current positions on; two
  ecosystems are the same up to such generator states.
\<close>

definition same_draws :: "rng \<Rightarrow> rng \<Rightarrow> bool" where
  "same_draws g1 g2 = (\<forall>n. outputs g1 (cursor g1 + n) = outputs g2 (cursor g2 + n))"

definition same_world :: "ecosystem \<Rightarrow> ecosystem \<Rightarrow> bool" where
  "same_world e1 e2 = (same_draws (rng e1) (rng e2) \<and> e2 = e1\<lparr>rng := rng e2\<rparr>)"



section \<open>The store\<close>

lemma modify_fields [simp]:
  "organisms (modify r f e) = organisms e"
  "temp_added_organisms (modify r f e) = temp_added_organisms e"
  "temp_removed_organisms (modify r f e) = temp_removed_organisms e"
  "width (modify r f e) = width e"
  "height (modify r f e) = height e"
  "total_ticks (modify r f e) = total_ticks e"
  "initial_helper_set (modify r f e) = initial_helper_set e"
  "rng (modify r f e) = rng e"
  "length (heap (modify r f e)) = length (heap e)"
  by (simp_all add: modify_def)

lemma obj_modify:
  "obj (modify r f e) r' = (if r' = r \<and> r < length (heap e) then f (obj e r) else obj e r')"
  by (cases "r < length (heap e)") (simp_all add: modify_def obj_def nth_list_update list_update_beyond)

lemma obj_rng_update [simp]: "obj (e\<lparr>rng := g\<rparr>) r = obj e r"
  by (simp add: obj_def)

lemma obj_organisms_update [simp]: "obj (e\<lparr>organisms := os\<rparr>) r = obj e r"
  by (simp add: obj_def)

lemma obj_temp_added_update [simp]: "obj (e\<lparr>temp_added_organisms := os\<rparr>) r = obj e r"
  by (simp add: obj_def)

lemma obj_temp_removed_update [simp]: "obj (e\<lparr>temp_removed_organisms := os\<rparr>) r = obj e r"
  by (simp add: obj_def)

lemma obj_helper_update [simp]: "obj (e\<lparr>initial_helper_set := s\<rparr>) r = obj e r"
  by (simp add: obj_def)

lemma alloc_fields [simp]:
  "fst (alloc ob e) = length (heap e)"
  "organisms (snd (alloc ob e)) = organisms e"
  "temp_added_organisms (snd (alloc ob e)) = temp_added_organisms e"
  "temp_removed_organisms (snd (alloc ob e)) = temp_removed_organisms e"
  "width (snd (alloc ob e)) = width e"
  "height (snd (alloc ob e)) = height e"
  "total_ticks (snd (alloc ob e)) = total_ticks e"
  "initial_helper_set (snd (alloc ob e)) = initial_helper_set e"
  "rng (snd (alloc ob e)) = rng e"
  "length (heap (snd (alloc ob e))) = Suc (length (heap e))"
  by (simp_all add: alloc_def)

lemma obj_alloc:
  "obj (snd (alloc ob e)) r =
     (if r < length (heap e) then obj e r else if r = length (heap e) then ob else heap (snd (alloc ob e)) ! r)"
  by (simp add: alloc_def obj_def nth_append)

section \<open>The registry\<close>

lemma add_organism_fields [simp]:
  "organisms (add_organism e r) = organisms e"
  "temp_added_organisms (add_organism e r) = temp_added_organisms e @ [r]"
  "temp_removed_organisms (add_organism e r) = temp_removed_organisms e"
  "width (add_organism e r) = width e"
  "height (add_organism e r) = height e"
  "heap (add_organism e r) = heap e"
  "rng (add_organism e r) = rng e"
  "obj (add_organism e r) r' = obj e r'"
  by (simp_all add: add_organism_def obj_def)

lemma remove_organism_fields [simp]:
  "organisms (remove_organism e r) = organisms e"
  "temp_added_organisms (remove_organism e r) = temp_added_organisms e"
  "temp_removed_organisms (remove_organism e r) = temp_removed_organisms e @ [r]"
  "width (remove_organism e r) = width e"
  "height (remove_organism e r) = height e"
  "length (heap (remove_organism e r)) = length (heap e)"
  "rng (remove_organism e r) = rng e"
  by (simp_all add: remove_organism_def Let_def)

lemma obj_remove_organism:
  "obj (remove_organism e r) r' =
     (if r' = r \<and> r < length (heap e) then (obj e r)\<lparr>alive := False\<rparr> else obj e r')"
  by (simp add: remove_organism_def Let_def obj_modify)

lemma move_organism_fields [simp]:
  "organisms (move_organism e r nx ny) = organisms e"
  "temp_added_organisms (move_organism e r nx ny) = temp_added_organisms e"
  "temp_removed_organisms (move_organism e r nx ny) = temp_removed_organisms e"
  "width (move_organism e r nx ny) = width e"
  "height (move_organism e r nx ny) = height e"
  "length (heap (move_organism e r nx ny)) = length (heap e)"
  "rng (move_organism e r nx ny) = rng e"
  by (simp_all add: move_organism_def)

lemma obj_move_organism:
  "obj (move_organism e r nx ny) r' =
     (if r' = r \<and> r < length (heap e) then (obj e r)\<lparr>org_x := nx, org_y := ny\<rparr> else obj e r')"
  by (simp add: move_organism_def obj_modify)

lemma in_get_organism_at:
  "r \<in> set (get_organism_at e px py) \<longleftrightarrow>
     r \<in> set (organisms e @ temp_added_organisms e)
     \<and> org_x (obj e r) = px \<and> org_y (obj e r) = py \<and> alive (obj e r)"
  by (auto simp: get_organism_at_def)

lemma in_get_adjacent_cells:
  "c \<in> set (get_adjacent_cells e px py) \<longleftrightarrow>
     (\<exists>d \<in> set DIRECTIONS. c = (px + fst d, py + snd d))
     \<and> 0 \<le> fst c \<and> fst c < width e \<and> 0 \<le> snd c \<and> snd c < height e"
  unfolding get_adjacent_cells_def by (cases c) (force simp: case_prod_beta)

lemma directions_nonzero: "d \<in> set DIRECTIONS \<Longrightarrow> d \<noteq> (0, 0)"
  unfolding DIRECTIONS_def by auto

lemma adjacent_cell_differs:
  "c \<in> set (get_adjacent_cells e px py) \<Longrightarrow> c \<noteq> (px, py)"
proof
  assume a: "c \<in> set (get_adjacent_cells e px py)" and b: "c = (px, py)"
  from a obtain d where d: "d \<in> set DIRECTIONS" and c: "c = (px + fst d, py + snd d)"
    unfolding in_get_adjacent_cells by blast
  from b c have "d = (0, 0)" by (cases d) simp
  with directions_nonzero [OF d] show False by simp
qed

lemma in_get_adjacent_empty_cells:
  "(nx, ny) \<in> set (get_adjacent_empty_cells e px py) \<longleftrightarrow>
     (nx, ny) \<in> set (get_adjacent_cells e px py) \<and> get_organism_at e nx ny = []"
  by (auto simp: get_adjacent_empty_cells_def)

lemma in_get_adjacent_organisms:
  "r \<in> set (get_adjacent_organisms e px py c) \<longleftrightarrow>
     r \<in> set (organisms e @ temp_added_organisms e)
     \<and> (org_x (obj e r), org_y (obj e r)) \<in> set (get_adjacent_cells e px py)
     \<and> cls (obj e r) = c \<and> alive (obj e r)"
  by (auto simp: get_adjacent_organisms_def)

lemma random_choice_in: "xs \<noteq> [] \<Longrightarrow> fst (random_choice xs g) \<in> set xs"
  by (simp add: random_choice_def randbelow_def next_raw_def)


section \<open>Animal steps\<close>

lemma Animal_update_fields [simp]:
  "organisms (Animal_update self e) = organisms e"
  "temp_added_organisms (Animal_update self e) = temp_added_organisms e"
  "temp_removed_organisms (Animal_update self e) = temp_removed_organisms e"
  "width (Animal_update self e) = width e"
  "height (Animal_update self e) = height e"
  "length (heap (Animal_update self e)) = length (heap e)"
  "rng (Animal_update self e) = rng e"
  by (simp_all add: Animal_update_def)

lemma obj_Animal_update:
  "obj (Animal_update self e) r =
     (if r = self \<and> self < length (heap e)
      then (obj e self)\<lparr>energy := energy (obj e self) - METABOLIC_ENERGY_COST\<rparr> else obj e r)"
  by (simp add: Animal_update_def obj_modify)

lemma Animal_update_obj_fields [simp]:
  "org_x (obj (Animal_update self e) r) = org_x (obj e r)"
  "org_y (obj (Animal_update self e) r) = org_y (obj e r)"
  "alive (obj (Animal_update self e) r) = alive (obj e r)"
  "cls (obj (Animal_update self e) r) = cls (obj e r)"
  "symbol (obj (Animal_update self e) r) = symbol (obj e r)"
  by (simp_all add: obj_Animal_update)

lemma get_organism_at_Animal_update [simp]:
  "get_organism_at (Animal_update self e) px py = get_organism_at e px py"
  by (simp add: get_organism_at_def)

lemma get_adjacent_cells_Animal_update [simp]:
  "get_adjacent_cells (Animal_update self e) px py = get_adjacent_cells e px py"
  by (simp add: get_adjacent_cells_def)

lemma get_adjacent_organisms_Animal_update [simp]:
  "get_adjacent_organisms (Animal_update self e) px py c = get_adjacent_organisms e px py c"
  by (simp add: get_adjacent_organisms_def)

lemma eat_call_Some:
  assumes "eat_call self c e = Some (prey, e1)"
  shows "prey \<in> set (get_adjacent_organisms e (org_x (obj e self)) (org_y (obj e self)) c)"
    and "\<exists>g. e1 = e\<lparr>rng := g\<rparr>"
proof -
  let ?ps = "get_adjacent_organisms e (org_x (obj e self)) (org_y (obj e self)) c"
  from assms have ne: "?ps \<noteq> []" and p: "prey = fst (random_choice ?ps (rng e))"
    and e1: "e1 = e\<lparr>rng := snd (random_choice ?ps (rng e))\<rparr>"
    by (auto simp: eat_call_def Let_def case_prod_beta split: if_splits)
  from random_choice_in [OF ne] p show "prey \<in> set ?ps" by simp
  from e1 show "\<exists>g. e1 = e\<lparr>rng := g\<rparr>" by blast
qed

lemma eat_True:
  assumes "eat self c gain e = (True, e')"
  shows "\<exists>prey g. prey \<in> set (get_adjacent_organisms e (org_x (obj e self)) (org_y (obj e self)) c)
     \<and> e' = modify self (\<lambda>ob. ob\<lparr>energy := energy ob + gain\<rparr>)
              (remove_organism
                 (move_organism (e\<lparr>rng := g\<rparr>) self (org_x (obj e prey)) (org_y (obj e prey))) prey)"
proof (cases "eat_call self c e")
  case None
  with assms show ?thesis by (simp add: eat_def)
next
  case (Some a)
  obtain prey e1 where a: "a = (prey, e1)" by (cases a)
  from eat_call_Some [OF Some [unfolded a]] obtain g where
    p: "prey \<in> set (get_adjacent_organisms e (org_x (obj e self)) (org_y (obj e self)) c)"
    and e1: "e1 = e\<lparr>rng := g\<rparr>" by blast
  from assms Some a e1 have
    "e' = modify self (\<lambda>ob. ob\<lparr>energy := energy ob + gain\<rparr>)
              (remove_organism
                 (move_organism (e\<lparr>rng := g\<rparr>) self (org_x (obj e prey)) (org_y (obj e prey))) prey)"
    by (simp add: eat_def Let_def)
  with p show ?thesis by blast
qed

lemma eat_False: "eat self c gain e = (False, e') \<Longrightarrow> e' = e"
  by (auto simp: eat_def Let_def split: option.splits)

lemma prey_not_self:
  assumes "prey \<in> set (get_adjacent_organisms e (org_x (obj e self)) (org_y (obj e self)) c)"
  shows "prey \<noteq> self"
proof
  assume "prey = self"
  with assms have "(org_x (obj e self), org_y (obj e self))
      \<in> set (get_adjacent_cells e (org_x (obj e self)) (org_y (obj e self)))"
    by (simp add: in_get_adjacent_organisms)
  from adjacent_cell_differs [OF this] show False by simp
qed

lemma eat_effect:
  assumes ok: "refs_ok e" and self: "self < length (heap e)"
    and eat: "eat self c gain e = (True, e')"
  shows "\<exists>prey \<in> set (get_adjacent_organisms e (org_x (obj e self)) (org_y (obj e self)) c).
      prey \<noteq> self \<and> prey < length (heap e)
      \<and> obj e' prey = (obj e prey)\<lparr>alive := False\<rparr>
      \<and> obj e' self = (obj e self)\<lparr>org_x := org_x (obj e prey), org_y := org_y (obj e prey),
                                   energy := energy (obj e self) + gain\<rparr>
      \<and> (\<forall>r. r \<noteq> prey \<longrightarrow> r \<noteq> self \<longrightarrow> obj e' r = obj e r)
      \<and> organisms e' = organisms e \<and> temp_added_organisms e' = temp_added_organisms e
      \<and> temp_removed_organisms e' = temp_removed_organisms e @ [prey]
      \<and> length (heap e') = length (heap e) \<and> width e' = width e \<and> height e' = height e"
proof -
  from eat_True [OF eat] obtain prey g where
    p: "prey \<in> set (get_adjacent_organisms e (org_x (obj e self)) (org_y (obj e self)) c)"
    and e': "e' = modify self (\<lambda>ob. ob\<lparr>energy := energy ob + gain\<rparr>)
              (remove_organism
                 (move_organism (e\<lparr>rng := g\<rparr>) self (org_x (obj e prey)) (org_y (obj e prey))) prey)"
    by blast
  from p have ne: "prey \<noteq> self" by (rule prey_not_self)
  from p ok have lt: "prey < length (heap e)"
    by (auto simp: in_get_adjacent_organisms refs_ok_def)
  show ?thesis
  proof (rule bexI [OF _ p], intro conjI allI impI)
    show "prey \<noteq> self" by (rule ne)
    show "prey < length (heap e)" by (rule lt)
    show "obj e' prey = (obj e prey)\<lparr>alive := False\<rparr>"
      using ne lt by (simp add: e' obj_modify obj_remove_organism obj_move_organism)
    show "obj e' self = (obj e self)\<lparr>org_x := org_x (obj e prey), org_y := org_y (obj e prey),
                                   energy := energy (obj e self) + gain\<rparr>"
      using ne self by (simp add: e' obj_modify obj_remove_organism obj_move_organism)
    show "obj e' r = obj e r" if "r \<noteq> prey" "r \<noteq> self" for r
      using that by (simp add: e' obj_modify obj_remove_organism obj_move_organism)
  qed (simp_all add: e')
qed


text \<open>
  Claim C2. When the eat step of a Herbivore or Carnivore succeeds (in its turn, after the
  metabolic cost), the prey was alive and of the hunted class, and right afterwards the prey
  is dead and returned by no occupancy or adjacency query, the predator stands on the prey's
  former cell, its energy is the energy before the turn minus the metabolic cost 1 plus the
  eat gain (10 for a Herbivore, 15 for a Carnivore), and the turn only has the survive check
  left.
\<close>

theorem eat_contract:
  assumes "refs_ok e" and "self < length (heap e)"
    and "cls (obj e self) = Herbivore \<and> prey_class = Plant \<and> eat_gain = HERBIVORE_EAT_GAIN
         \<or> cls (obj e self) = Carnivore \<and> prey_class = Herbivore \<and> eat_gain = CARNIVORE_EAT_GAIN"
    and "eat self prey_class eat_gain (Animal_update self e) = (True, e1)"
  shows "\<exists>prey \<in> set (get_adjacent_organisms e (org_x (obj e self)) (org_y (obj e self)) prey_class).
       alive (obj e prey) \<and> cls (obj e prey) = prey_class
       \<and> \<not> alive (obj e1 prey)
       \<and> (\<forall>px py. prey \<notin> set (get_organism_at e1 px py))
       \<and> (\<forall>px py c. prey \<notin> set (get_adjacent_organisms e1 px py c))
       \<and> org_x (obj e1 self) = org_x (obj e prey) \<and> org_y (obj e1 self) = org_y (obj e prey)
       \<and> energy (obj e1 self) = energy (obj e self) - 1 + eat_gain
       \<and> eat_gain = (if cls (obj e self) = Herbivore then 10 else 15)
       \<and> update self e = snd (survive self e1)"
proof -
  let ?e0 = "Animal_update self e"
  have ok0: "refs_ok ?e0" using assms(1) by (simp add: refs_ok_def)
  have self0: "self < length (heap ?e0)" using assms(2) by simp
  from eat_effect [OF ok0 self0 assms(4)] obtain prey where
    p: "prey \<in> set (get_adjacent_organisms e (org_x (obj e self)) (org_y (obj e self)) prey_class)"
    and ne: "prey \<noteq> self"
    and dead: "obj e1 prey = (obj ?e0 prey)\<lparr>alive := False\<rparr>"
    and me: "obj e1 self = (obj ?e0 self)\<lparr>org_x := org_x (obj ?e0 prey), org_y := org_y (obj ?e0 prey),
                                   energy := energy (obj ?e0 self) + eat_gain\<rparr>"
    by auto
  have upd: "update self e = snd (survive self e1)"
    using assms(3,4)
    by (auto simp: update_def Herbivore_update_def Carnivore_update_def Herbivore_act_def
        Carnivore_act_def)
  have gain: "eat_gain = (if cls (obj e self) = Herbivore then 10 else 15)"
    using assms(3) by (auto simp: HERBIVORE_EAT_GAIN_def CARNIVORE_EAT_GAIN_def)
  have en: "energy (obj e1 self) = energy (obj e self) - 1 + eat_gain"
    using assms(2) by (simp add: me obj_Animal_update METABOLIC_ENERGY_COST_def)
  show ?thesis
  proof (rule bexI [OF _ p], intro conjI allI)
    show "alive (obj e prey)" "cls (obj e prey) = prey_class"
      using p by (simp_all add: in_get_adjacent_organisms)
    show "\<not> alive (obj e1 prey)" by (simp add: dead)
    show "prey \<notin> set (get_organism_at e1 px py)" for px py
      by (simp add: in_get_organism_at dead)
    show "prey \<notin> set (get_adjacent_organisms e1 px py c)" for px py c
      by (simp add: in_get_adjacent_organisms dead)
    show "org_x (obj e1 self) = org_x (obj e prey)" "org_y (obj e1 self) = org_y (obj e prey)"
      by (simp_all add: me)
  qed (rule en gain upd)+
qed

lemma grazing_eat:
  "eat 0 Plant HERBIVORE_EAT_GAIN (Animal_update 0 grazing_state) =
     (True, grazing_state\<lparr>temp_removed_organisms := [1],
        heap := [\<lparr>org_x = 1, org_y = 0, symbol = HERBIVORE_SYMBOL, alive = True, cls = Herbivore,
                   energy = 24\<rparr>, (Plant_init 1 0)\<lparr>alive := False\<rparr>],
        rng := sample_rng\<lparr>cursor := 1\<rparr>\<rparr>)"
  by (simp add: eat_def eat_call_def Animal_update_def modify_def grazing_state_def obj_def
      get_adjacent_organisms_def get_adjacent_cells_def DIRECTIONS_def Herbivore_init_def
      Plant_init_def random_choice_def randbelow_def next_raw_def sample_rng_def
      move_organism_def remove_organism_def HERBIVORE_EAT_GAIN_def METABOLIC_ENERGY_COST_def
      HERBIVORE_INITIAL_ENERGY_def Let_def)


theorem eat_contract_witness:
  "refs_ok grazing_state \<and> 0 < length (heap grazing_state)
   \<and> cls (obj grazing_state 0) = Herbivore
   \<and> eat 0 Plant HERBIVORE_EAT_GAIN (Animal_update 0 grazing_state) = (True, eaten_state)
   \<and> (\<exists>prey \<in> set (get_adjacent_organisms grazing_state 0 0 Plant).
        \<not> alive (obj eaten_state prey)
        \<and> org_x (obj eaten_state 0) = org_x (obj grazing_state prey)
        \<and> energy (obj eaten_state 0) = 15 - 1 + 10)"
proof -
  have h1: "refs_ok grazing_state" by (simp add: refs_ok_def grazing_state_def)
  have h2: "0 < length (heap grazing_state)" by (simp add: grazing_state_def)
  have h3: "cls (obj grazing_state 0) = Herbivore"
    by (simp add: grazing_state_def obj_def Herbivore_init_def)
  have h4: "eat 0 Plant HERBIVORE_EAT_GAIN (Animal_update 0 grazing_state) = (True, eaten_state)"
    unfolding eaten_state_def by (rule grazing_eat)
  have pos: "org_x (obj grazing_state 0) = 0" "org_y (obj grazing_state 0) = 0"
    "energy (obj grazing_state 0) = 15"
    by (simp_all add: grazing_state_def obj_def Herbivore_init_def HERBIVORE_INITIAL_ENERGY_def)
  from eat_contract [OF h1 h2 _ h4] h3 pos
  have "\<exists>prey \<in> set (get_adjacent_organisms grazing_state 0 0 Plant).
        \<not> alive (obj eaten_state prey)
        \<and> org_x (obj eaten_state 0) = org_x (obj grazing_state prey)
        \<and> energy (obj eaten_state 0) = 15 - 1 + 10"
    by (auto simp: HERBIVORE_EAT_GAIN_def)
  with h1 h2 h3 h4 show ?thesis by blast
qed

section \<open>Queries do not depend on the generator\<close>

lemma get_organism_at_rng [simp]: "get_organism_at (e\<lparr>rng := g\<rparr>) px py = get_organism_at e px py"
  by (simp add: get_organism_at_def)

lemma get_adjacent_cells_rng [simp]:
  "get_adjacent_cells (e\<lparr>rng := g\<rparr>) px py = get_adjacent_cells e px py"
  by (simp add: get_adjacent_cells_def)

lemma get_adjacent_empty_cells_rng [simp]:
  "get_adjacent_empty_cells (e\<lparr>rng := g\<rparr>) px py = get_adjacent_empty_cells e px py"
  by (simp add: get_adjacent_empty_cells_def)

lemma get_adjacent_empty_cells_Animal_update [simp]:
  "get_adjacent_empty_cells (Animal_update self e) px py = get_adjacent_empty_cells e px py"
  by (simp add: get_adjacent_empty_cells_def)

lemma reproduce_True:
  assumes "reproduce self thr chance cost child_class child_energy e = (True, e')"
  shows "thr \<le> energy (obj e self)
     \<and> (\<exists>c g. c \<in> set (get_adjacent_empty_cells e (org_x (obj e self)) (org_y (obj e self)))
          \<and> e' = modify self (\<lambda>ob. ob\<lparr>energy := energy ob - cost\<rparr>)
                  (add_organism
                     (modify (length (heap e)) (\<lambda>ob. ob\<lparr>energy := child_energy\<rparr>)
                        (snd (alloc (construct child_class (fst c) (snd c)) (e\<lparr>rng := g\<rparr>))))
                     (length (heap e))))"
proof -
  let ?cells = "get_adjacent_empty_cells e (org_x (obj e self)) (org_y (obj e self))"
  let ?g1 = "snd (random_random (rng e))"
  let ?ch = "random_choice ?cells ?g1"
  from assms have thr: "thr \<le> energy (obj e self)" and ne: "?cells \<noteq> []"
    by (auto simp: reproduce_def Let_def case_prod_beta split: if_splits)
  from assms thr ne have
    "e' = modify self (\<lambda>ob. ob\<lparr>energy := energy ob - cost\<rparr>)
                  (add_organism
                     (modify (length (heap e)) (\<lambda>ob. ob\<lparr>energy := child_energy\<rparr>)
                        (snd (alloc (construct child_class (fst (fst ?ch)) (snd (fst ?ch)))
                               (e\<lparr>rng := snd ?ch\<rparr>))))
                     (length (heap e)))"
    by (simp add: reproduce_def Let_def case_prod_beta split: if_splits)
  moreover have "fst ?ch \<in> set ?cells" by (rule random_choice_in [OF ne])
  ultimately show ?thesis using thr by blast
qed

lemma construct_fields [simp]:
  "org_x (construct c px py) = px" "org_y (construct c px py) = py"
  "alive (construct c px py)" "cls (construct c px py) = c"
  by (cases c; simp add: Plant_init_def Herbivore_init_def Carnivore_init_def)+

lemma reproduce_effect:
  assumes self: "self < length (heap e)"
    and rep: "reproduce self thr chance cost child_class child_energy e = (True, e')"
  shows "thr \<le> energy (obj e self)
     \<and> obj e' self = (obj e self)\<lparr>energy := energy (obj e self) - cost\<rparr>
     \<and> (\<exists>c \<in> set (get_adjacent_empty_cells e (org_x (obj e self)) (org_y (obj e self))).
          obj e' (length (heap e)) = (construct child_class (fst c) (snd c))\<lparr>energy := child_energy\<rparr>)
     \<and> (\<forall>r. r < length (heap e) \<longrightarrow> r \<noteq> self \<longrightarrow> obj e' r = obj e r)
     \<and> organisms e' = organisms e
     \<and> temp_added_organisms e' = temp_added_organisms e @ [length (heap e)]
     \<and> temp_removed_organisms e' = temp_removed_organisms e
     \<and> length (heap e') = Suc (length (heap e)) \<and> width e' = width e \<and> height e' = height e"
proof -
  from reproduce_True [OF rep] obtain c g where
    thr: "thr \<le> energy (obj e self)"
    and c: "c \<in> set (get_adjacent_empty_cells e (org_x (obj e self)) (org_y (obj e self)))"
    and e': "e' = modify self (\<lambda>ob. ob\<lparr>energy := energy ob - cost\<rparr>)
                  (add_organism
                     (modify (length (heap e)) (\<lambda>ob. ob\<lparr>energy := child_energy\<rparr>)
                        (snd (alloc (construct child_class (fst c) (snd c)) (e\<lparr>rng := g\<rparr>))))
                     (length (heap e)))"
    by blast
  have a: "obj e' self = (obj e self)\<lparr>energy := energy (obj e self) - cost\<rparr>"
    using self by (simp add: e' obj_modify obj_alloc)
  have b: "obj e' (length (heap e)) = (construct child_class (fst c) (snd c))\<lparr>energy := child_energy\<rparr>"
    using self by (simp add: e' obj_modify obj_alloc)
  have d: "obj e' r = obj e r" if "r < length (heap e)" "r \<noteq> self" for r
    using that by (simp add: e' obj_modify obj_alloc)
  show ?thesis using thr a b c d by (auto simp: e')
qed


text \<open>
  Claim C3. When the reproduce step of a Herbivore or Carnivore succeeds, the parent's energy
  drops by exactly the reproduction cost (8, respectively 20); exactly one object is made and
  exactly one reference, to it, is appended to the birth queue; the child is alive, of the
  parent's class, on a cell that was adjacent and empty, and its energy is the fixed child
  energy (10, respectively 20) whatever the parent's energy.
\<close>

theorem reproduction_contract:
  assumes "self < length (heap e)"
    and "cls (obj e self) = Herbivore \<and> thr = HERBIVORE_REPRODUCTION_ENERGY_THRESHOLD
           \<and> chance = HERBIVORE_REPRODUCTION_CHANCE \<and> cost = HERBIVORE_REPRODUCTION_COST
           \<and> child_class = Herbivore \<and> child_energy = HERBIVORE_CHILD_ENERGY
         \<or> cls (obj e self) = Carnivore \<and> thr = CARNIVORE_REPRODUCTION_ENERGY_THRESHOLD
           \<and> chance = CARNIVORE_REPRODUCTION_CHANCE \<and> cost = CARNIVORE_REPRODUCTION_COST
           \<and> child_class = Carnivore \<and> child_energy = CARNIVORE_CHILD_ENERGY"
    and "reproduce self thr chance cost child_class child_energy e = (True, e')"
  shows "energy (obj e' self) = energy (obj e self) - cost
     \<and> cost = (if cls (obj e self) = Herbivore then 8 else 20)
     \<and> (\<exists>child. temp_added_organisms e' = temp_added_organisms e @ [child]
          \<and> child = length (heap e) \<and> length (heap e') = Suc (length (heap e))
          \<and> child \<noteq> self
          \<and> energy (obj e' child) = (if cls (obj e self) = Herbivore then 10 else 20)
          \<and> cls (obj e' child) = cls (obj e self) \<and> alive (obj e' child)
          \<and> (org_x (obj e' child), org_y (obj e' child))
               \<in> set (get_adjacent_empty_cells e (org_x (obj e self)) (org_y (obj e self))))
     \<and> organisms e' = organisms e"
proof -
  from reproduce_effect [OF assms(1,3)] obtain c where
    me: "obj e' self = (obj e self)\<lparr>energy := energy (obj e self) - cost\<rparr>"
    and c: "c \<in> set (get_adjacent_empty_cells e (org_x (obj e self)) (org_y (obj e self)))"
    and ch: "obj e' (length (heap e)) = (construct child_class (fst c) (snd c))\<lparr>energy := child_energy\<rparr>"
    and rest: "organisms e' = organisms e"
      "temp_added_organisms e' = temp_added_organisms e @ [length (heap e)]"
      "length (heap e') = Suc (length (heap e))"
    by blast
  have cost: "cost = (if cls (obj e self) = Herbivore then 8 else 20)"
    using assms(2) by (auto simp: HERBIVORE_REPRODUCTION_COST_def CARNIVORE_REPRODUCTION_COST_def)
  have chen: "child_energy = (if cls (obj e self) = Herbivore then 10 else 20)"
    using assms(2) by (auto simp: HERBIVORE_CHILD_ENERGY_def CARNIVORE_CHILD_ENERGY_def)
  have chcls: "child_class = cls (obj e self)" using assms(2) by auto
  have "temp_added_organisms e' = temp_added_organisms e @ [length (heap e)]
          \<and> length (heap e) = length (heap e) \<and> length (heap e') = Suc (length (heap e))
          \<and> length (heap e) \<noteq> self
          \<and> energy (obj e' (length (heap e))) = (if cls (obj e self) = Herbivore then 10 else 20)
          \<and> cls (obj e' (length (heap e))) = cls (obj e self) \<and> alive (obj e' (length (heap e)))
          \<and> (org_x (obj e' (length (heap e))), org_y (obj e' (length (heap e))))
               \<in> set (get_adjacent_empty_cells e (org_x (obj e self)) (org_y (obj e self)))"
    using assms(1) c rest chen chcls by (simp add: ch)
  then have "\<exists>child. temp_added_organisms e' = temp_added_organisms e @ [child]
          \<and> child = length (heap e) \<and> length (heap e') = Suc (length (heap e))
          \<and> child \<noteq> self
          \<and> energy (obj e' child) = (if cls (obj e self) = Herbivore then 10 else 20)
          \<and> cls (obj e' child) = cls (obj e self) \<and> alive (obj e' child)
          \<and> (org_x (obj e' child), org_y (obj e' child))
               \<in> set (get_adjacent_empty_cells e (org_x (obj e self)) (org_y (obj e self)))"
    by blast
  moreover have "energy (obj e' self) = energy (obj e self) - cost" by (simp add: me)
  ultimately show ?thesis using cost rest(1) by blast
qed

lemma breeding_reproduce:
  "fst (reproduce 0 HERBIVORE_REPRODUCTION_ENERGY_THRESHOLD HERBIVORE_REPRODUCTION_CHANCE
          HERBIVORE_REPRODUCTION_COST Herbivore HERBIVORE_CHILD_ENERGY breeding_state)"
  by (simp add: reproduce_def breeding_state_def obj_def Herbivore_init_def sample_rng_def
      random_random_def next_raw_def get_adjacent_empty_cells_def get_adjacent_cells_def
      get_organism_at_def DIRECTIONS_def HERBIVORE_REPRODUCTION_ENERGY_THRESHOLD_def
      HERBIVORE_REPRODUCTION_CHANCE_def Let_def case_prod_beta)

theorem reproduction_contract_witness:
  "0 < length (heap breeding_state) \<and> cls (obj breeding_state 0) = Herbivore
   \<and> fst (reproduce 0 HERBIVORE_REPRODUCTION_ENERGY_THRESHOLD HERBIVORE_REPRODUCTION_CHANCE
          HERBIVORE_REPRODUCTION_COST Herbivore HERBIVORE_CHILD_ENERGY breeding_state)
   \<and> energy (obj (snd (reproduce 0 HERBIVORE_REPRODUCTION_ENERGY_THRESHOLD
          HERBIVORE_REPRODUCTION_CHANCE HERBIVORE_REPRODUCTION_COST Herbivore
          HERBIVORE_CHILD_ENERGY breeding_state)) 0) = 30 - 8
   \<and> temp_added_organisms (snd (reproduce 0 HERBIVORE_REPRODUCTION_ENERGY_THRESHOLD
          HERBIVORE_REPRODUCTION_CHANCE HERBIVORE_REPRODUCTION_COST Herbivore
          HERBIVORE_CHILD_ENERGY breeding_state)) = [1]
   \<and> energy (obj (snd (reproduce 0 HERBIVORE_REPRODUCTION_ENERGY_THRESHOLD
          HERBIVORE_REPRODUCTION_CHANCE HERBIVORE_REPRODUCTION_COST Herbivore
          HERBIVORE_CHILD_ENERGY breeding_state)) 1) = 10"
proof -
  let ?r = "reproduce 0 HERBIVORE_REPRODUCTION_ENERGY_THRESHOLD HERBIVORE_REPRODUCTION_CHANCE
          HERBIVORE_REPRODUCTION_COST Herbivore HERBIVORE_CHILD_ENERGY breeding_state"
  have h1: "0 < length (heap breeding_state)" by (simp add: breeding_state_def)
  have h2: "cls (obj breeding_state 0) = Herbivore" "energy (obj breeding_state 0) = 30"
    "temp_added_organisms breeding_state = []" "length (heap breeding_state) = 1"
    by (simp_all add: breeding_state_def obj_def Herbivore_init_def)
  have h3: "?r = (True, snd ?r)" using breeding_reproduce by (simp add: prod_eq_iff)
  from reproduction_contract [OF h1 _ h3] h2
  have "energy (obj (snd ?r) 0) = 30 - 8 \<and> temp_added_organisms (snd ?r) = [1]
     \<and> energy (obj (snd ?r) 1) = 10"
    by (auto simp: HERBIVORE_REPRODUCTION_COST_def)
  with h1 h2(1) breeding_reproduce show ?thesis by blast
qed


lemma breeding_no_prey:
  "\<not> fst (eat 0 Plant HERBIVORE_EAT_GAIN (Animal_update 0 breeding_state))"
  by (simp add: eat_def eat_call_def get_adjacent_organisms_def get_adjacent_cells_def
      DIRECTIONS_def breeding_state_def obj_def Herbivore_init_def Animal_update_def modify_def)

lemma breeding_reproduce_turn:
  "fst (reproduce 0 HERBIVORE_REPRODUCTION_ENERGY_THRESHOLD HERBIVORE_REPRODUCTION_CHANCE
          HERBIVORE_REPRODUCTION_COST Herbivore HERBIVORE_CHILD_ENERGY
          (Animal_update 0 breeding_state))"
  by (simp add: reproduce_def breeding_state_def obj_def Herbivore_init_def sample_rng_def
      random_random_def next_raw_def get_adjacent_empty_cells_def get_adjacent_cells_def
      get_organism_at_def DIRECTIONS_def HERBIVORE_REPRODUCTION_ENERGY_THRESHOLD_def
      HERBIVORE_REPRODUCTION_CHANCE_def Let_def case_prod_beta Animal_update_def modify_def
      METABOLIC_ENERGY_COST_def)

text \<open>
  Claim C10. In a turn of a Herbivore or Carnivore in which eating fails and reproduction
  succeeds, the threshold was met after the metabolic cost, so the energy after reproducing is
  at least threshold minus cost (12 for a Herbivore, 20 for a Carnivore), hence positive; the
  survive check of that turn returns True, leaves the state as it is, and the animal is as
  alive after the turn as before.
\<close>

theorem reproduction_survives:
  assumes "self < length (heap e)"
    and "cls (obj e self) = Herbivore \<and> prey_class = Plant \<and> eat_gain = HERBIVORE_EAT_GAIN
           \<and> thr = HERBIVORE_REPRODUCTION_ENERGY_THRESHOLD
           \<and> chance = HERBIVORE_REPRODUCTION_CHANCE \<and> cost = HERBIVORE_REPRODUCTION_COST
           \<and> child_class = Herbivore \<and> child_energy = HERBIVORE_CHILD_ENERGY
         \<or> cls (obj e self) = Carnivore \<and> prey_class = Herbivore \<and> eat_gain = CARNIVORE_EAT_GAIN
           \<and> thr = CARNIVORE_REPRODUCTION_ENERGY_THRESHOLD
           \<and> chance = CARNIVORE_REPRODUCTION_CHANCE \<and> cost = CARNIVORE_REPRODUCTION_COST
           \<and> child_class = Carnivore \<and> child_energy = CARNIVORE_CHILD_ENERGY"
    and "\<not> fst (eat self prey_class eat_gain (Animal_update self e))"
    and "reproduce self thr chance cost child_class child_energy (Animal_update self e) = (True, e2)"
  shows "thr \<le> energy (obj e self) - 1
     \<and> thr - cost \<le> energy (obj e2 self)
     \<and> thr - cost = (if cls (obj e self) = Herbivore then 12 else 20)
     \<and> 0 < energy (obj e2 self)
     \<and> survive self e2 = (True, e2)
     \<and> update self e = e2
     \<and> alive (obj (update self e) self) = alive (obj e self)"
proof -
  let ?e0 = "Animal_update self e"
  have self0: "self < length (heap ?e0)" using assms(1) by simp
  from reproduce_effect [OF self0 assms(4)] have
    thr0: "thr \<le> energy (obj ?e0 self)"
    and me: "obj e2 self = (obj ?e0 self)\<lparr>energy := energy (obj ?e0 self) - cost\<rparr>"
    by blast+
  have en0: "energy (obj ?e0 self) = energy (obj e self) - 1"
    using assms(1) by (simp add: obj_Animal_update METABOLIC_ENERGY_COST_def)
  have diff: "thr - cost = (if cls (obj e self) = Herbivore then 12 else 20)"
    using assms(2)
    by (auto simp: HERBIVORE_REPRODUCTION_ENERGY_THRESHOLD_def HERBIVORE_REPRODUCTION_COST_def
        CARNIVORE_REPRODUCTION_ENERGY_THRESHOLD_def CARNIVORE_REPRODUCTION_COST_def)
  have en2: "energy (obj e2 self) = energy (obj ?e0 self) - cost" by (simp add: me)
  have low: "thr - cost \<le> energy (obj e2 self)" using thr0 en2 by simp
  have pos: "0 < energy (obj e2 self)" using low diff by (simp split: if_splits)
  have sv: "survive self e2 = (True, e2)" using pos by (simp add: survive_def)
  have eatF: "eat self prey_class eat_gain ?e0 = (False, ?e0)"
    using assms(3) eat_False [of self prey_class eat_gain ?e0 "snd (eat self prey_class eat_gain ?e0)"]
    by (simp add: prod_eq_iff)
  have upd: "update self e = e2"
    using assms(2) eatF assms(4) sv
    by (auto simp: update_def Herbivore_update_def Carnivore_update_def Herbivore_act_def
        Carnivore_act_def)
  have al: "alive (obj (update self e) self) = alive (obj e self)"
    by (simp add: upd me)
  show ?thesis using thr0 en0 low diff pos sv upd al by simp
qed

theorem reproduction_survives_witness:
  "0 < length (heap breeding_state) \<and> cls (obj breeding_state 0) = Herbivore
   \<and> \<not> fst (eat 0 Plant HERBIVORE_EAT_GAIN (Animal_update 0 breeding_state))
   \<and> fst (reproduce 0 HERBIVORE_REPRODUCTION_ENERGY_THRESHOLD HERBIVORE_REPRODUCTION_CHANCE
          HERBIVORE_REPRODUCTION_COST Herbivore HERBIVORE_CHILD_ENERGY
          (Animal_update 0 breeding_state))
   \<and> 12 \<le> energy (obj (update 0 breeding_state) 0)
   \<and> alive (obj (update 0 breeding_state) 0)"
proof -
  let ?r = "reproduce 0 HERBIVORE_REPRODUCTION_ENERGY_THRESHOLD HERBIVORE_REPRODUCTION_CHANCE
          HERBIVORE_REPRODUCTION_COST Herbivore HERBIVORE_CHILD_ENERGY
          (Animal_update 0 breeding_state)"
  have h1: "0 < length (heap breeding_state)" by (simp add: breeding_state_def)
  have h2: "cls (obj breeding_state 0) = Herbivore" "alive (obj breeding_state 0)"
    by (simp_all add: breeding_state_def obj_def Herbivore_init_def)
  have h4: "?r = (True, snd ?r)" using breeding_reproduce_turn by (simp add: prod_eq_iff)
  from reproduction_survives [OF h1 _ breeding_no_prey h4] h2
  have "12 \<le> energy (obj (update 0 breeding_state) 0) \<and> alive (obj (update 0 breeding_state) 0)"
    by (auto simp: HERBIVORE_REPRODUCTION_ENERGY_THRESHOLD_def HERBIVORE_REPRODUCTION_COST_def)
  with h1 h2(1) breeding_no_prey breeding_reproduce_turn show ?thesis by blast
qed

section \<open>The calls of move_organism\<close>

lemma move_call_Some:
  assumes "move_call self e = Some (e1, nx, ny)"
  shows "(nx, ny) \<in> set (get_adjacent_empty_cells e (org_x (obj e self)) (org_y (obj e self)))"
    and "\<exists>g. e1 = e\<lparr>rng := g\<rparr>"
proof -
  let ?cells = "get_adjacent_empty_cells e (org_x (obj e self)) (org_y (obj e self))"
  from assms have ne: "?cells \<noteq> []" and c: "(nx, ny) = fst (random_choice ?cells (rng e))"
    and e1: "e1 = e\<lparr>rng := snd (random_choice ?cells (rng e))\<rparr>"
    by (auto simp: move_call_def Let_def case_prod_beta split: if_splits)
  from random_choice_in [OF ne] c show "(nx, ny) \<in> set ?cells" by simp
  from e1 show "\<exists>g. e1 = e\<lparr>rng := g\<rparr>" by blast
qed

text \<open>
  Claim C8, as the code has it. When \<open>move\<close> calls \<open>move_organism\<close>, the target is an adjacent
  cell on which no alive organism, committed or pending, stands at the moment of the call.
  When \<open>eat\<close> calls \<open>move_organism\<close>, the target is the cell of the chosen prey, which is alive
  and stands there at the moment of the call: the cell is occupied, and the prey is marked
  dead only after the relocation.
\<close>

theorem relocate_targets:
  "(move_call self e = Some (e1, nx, ny) \<longrightarrow>
      get_organism_at e1 nx ny = []
      \<and> (nx, ny) \<in> set (get_adjacent_cells e (org_x (obj e self)) (org_y (obj e self)))
      \<and> move self e = move_organism e1 self nx ny)
   \<and> (eat_call self c e = Some (prey, e2) \<longrightarrow>
      prey \<in> set (get_organism_at e2 (org_x (obj e2 prey)) (org_y (obj e2 prey)))
      \<and> alive (obj e2 prey)
      \<and> snd (eat self c gain e) =
          modify self (\<lambda>ob. ob\<lparr>energy := energy ob + gain\<rparr>)
            (remove_organism
               (move_organism e2 self (org_x (obj e2 prey)) (org_y (obj e2 prey))) prey))"
proof (intro conjI impI)
  assume m: "move_call self e = Some (e1, nx, ny)"
  from move_call_Some [OF m] obtain g where
    c: "(nx, ny) \<in> set (get_adjacent_empty_cells e (org_x (obj e self)) (org_y (obj e self)))"
    and e1: "e1 = e\<lparr>rng := g\<rparr>" by blast
  from c show "get_organism_at e1 nx ny = []" by (simp add: e1 in_get_adjacent_empty_cells)
  from c show "(nx, ny) \<in> set (get_adjacent_cells e (org_x (obj e self)) (org_y (obj e self)))"
    by (simp add: in_get_adjacent_empty_cells)
  from m show "move self e = move_organism e1 self nx ny" by (simp add: move_def)
next
  assume a: "eat_call self c e = Some (prey, e2)"
  from eat_call_Some [OF a] obtain g where
    p: "prey \<in> set (get_adjacent_organisms e (org_x (obj e self)) (org_y (obj e self)) c)"
    and e2: "e2 = e\<lparr>rng := g\<rparr>" by blast
  from p show "prey \<in> set (get_organism_at e2 (org_x (obj e2 prey)) (org_y (obj e2 prey)))"
    by (simp add: e2 in_get_organism_at in_get_adjacent_organisms)
  from p show "alive (obj e2 prey)" by (simp add: e2 in_get_adjacent_organisms)
  from a show "snd (eat self c gain e) =
          modify self (\<lambda>ob. ob\<lparr>energy := energy ob + gain\<rparr>)
            (remove_organism
               (move_organism e2 self (org_x (obj e2 prey)) (org_y (obj e2 prey))) prey)"
    by (simp add: eat_def Let_def)
qed

lemma grazing_eat_call:
  "eat_call 0 Plant grazing_state = Some (1, grazing_state\<lparr>rng := sample_rng\<lparr>cursor := 1\<rparr>\<rparr>)"
  by (simp add: eat_call_def grazing_state_def obj_def get_adjacent_organisms_def
      get_adjacent_cells_def DIRECTIONS_def Herbivore_init_def Plant_init_def random_choice_def
      randbelow_def next_raw_def sample_rng_def Let_def)

lemma breeding_move_call:
  "move_call 0 breeding_state = Some (breeding_state\<lparr>rng := sample_rng\<lparr>cursor := 1\<rparr>\<rparr>, 1, 0)"
  by (simp add: move_call_def breeding_state_def obj_def get_adjacent_empty_cells_def
      get_organism_at_def get_adjacent_cells_def DIRECTIONS_def Herbivore_init_def
      random_choice_def randbelow_def next_raw_def sample_rng_def Let_def)

theorem relocate_targets_witness:
  "move_call 0 breeding_state = Some (breeding_state\<lparr>rng := sample_rng\<lparr>cursor := 1\<rparr>\<rparr>, 1, 0)
   \<and> get_organism_at (breeding_state\<lparr>rng := sample_rng\<lparr>cursor := 1\<rparr>\<rparr>) 1 0 = []
   \<and> eat_call 0 Plant grazing_state = Some (1, grazing_state\<lparr>rng := sample_rng\<lparr>cursor := 1\<rparr>\<rparr>)
   \<and> alive (obj (grazing_state\<lparr>rng := sample_rng\<lparr>cursor := 1\<rparr>\<rparr>) 1)"
  using relocate_targets [of 0 breeding_state "breeding_state\<lparr>rng := sample_rng\<lparr>cursor := 1\<rparr>\<rparr>"
      1 0 Plant 1 "grazing_state\<lparr>rng := sample_rng\<lparr>cursor := 1\<rparr>\<rparr>" 0]
    relocate_targets [of 0 grazing_state "grazing_state\<lparr>rng := sample_rng\<lparr>cursor := 1\<rparr>\<rparr>"
      1 0 Plant 1 "grazing_state\<lparr>rng := sample_rng\<lparr>cursor := 1\<rparr>\<rparr>" 0]
    breeding_move_call grazing_eat_call
  by blast

theorem relocate_onto_prey_counterexample:
  "eat_call 0 Plant grazing_state = Some (1, grazing_state\<lparr>rng := sample_rng\<lparr>cursor := 1\<rparr>\<rparr>)
   \<and> get_organism_at (grazing_state\<lparr>rng := sample_rng\<lparr>cursor := 1\<rparr>\<rparr>)
        (org_x (obj (grazing_state\<lparr>rng := sample_rng\<lparr>cursor := 1\<rparr>\<rparr>) 1))
        (org_y (obj (grazing_state\<lparr>rng := sample_rng\<lparr>cursor := 1\<rparr>\<rparr>) 1)) = [1]
   \<and> get_organism_at (grazing_state\<lparr>rng := sample_rng\<lparr>cursor := 1\<rparr>\<rparr>)
        (org_x (obj (grazing_state\<lparr>rng := sample_rng\<lparr>cursor := 1\<rparr>\<rparr>) 1))
        (org_y (obj (grazing_state\<lparr>rng := sample_rng\<lparr>cursor := 1\<rparr>\<rparr>) 1)) \<noteq> []"
proof -
  have "get_organism_at (grazing_state\<lparr>rng := sample_rng\<lparr>cursor := 1\<rparr>\<rparr>)
        (org_x (obj (grazing_state\<lparr>rng := sample_rng\<lparr>cursor := 1\<rparr>\<rparr>) 1))
        (org_y (obj (grazing_state\<lparr>rng := sample_rng\<lparr>cursor := 1\<rparr>\<rparr>) 1)) = [1]"
    by (simp add: get_organism_at_def grazing_state_def obj_def Herbivore_init_def Plant_init_def)
  with grazing_eat_call show ?thesis by simp
qed

lemma dead_kept_refl: "dead_kept e e"
  by (simp add: dead_kept_def)

lemma dead_kept_trans: "dead_kept e1 e2 \<Longrightarrow> dead_kept e2 e3 \<Longrightarrow> dead_kept e1 e3"
  unfolding dead_kept_def by (metis order_less_le_trans order_trans)

lemma turn_frame_refl: "turn_frame self e e"
  by (simp add: turn_frame_def)

lemma turn_frame_trans:
  assumes "turn_frame self e1 e2" and "turn_frame self e2 e3"
  shows "turn_frame self e1 e3"
proof -
  from assms have len: "length (heap e1) \<le> length (heap e2)" "length (heap e2) \<le> length (heap e3)"
    by (simp_all add: turn_frame_def)
  from assms obtain bs bs' ds ds' where
    "temp_added_organisms e2 = temp_added_organisms e1 @ bs"
    "temp_added_organisms e3 = temp_added_organisms e2 @ bs'"
    "temp_removed_organisms e2 = temp_removed_organisms e1 @ ds"
    "temp_removed_organisms e3 = temp_removed_organisms e2 @ ds'"
    unfolding turn_frame_def by blast
  then have q: "temp_added_organisms e3 = temp_added_organisms e1 @ (bs @ bs')"
    "temp_removed_organisms e3 = temp_removed_organisms e1 @ (ds @ ds')" by simp_all
  have objs: "org_x (obj e3 q) = org_x (obj e1 q) \<and> org_y (obj e3 q) = org_y (obj e1 q)
            \<and> energy (obj e3 q) = energy (obj e1 q) \<and> symbol (obj e3 q) = symbol (obj e1 q)
            \<and> cls (obj e3 q) = cls (obj e1 q) \<and> (alive (obj e3 q) \<longrightarrow> alive (obj e1 q))"
    if "q < length (heap e1)" "q \<noteq> self" for q
  proof -
    from that len have q2: "q < length (heap e2)" by simp
    from assms(1) that have a: "org_x (obj e2 q) = org_x (obj e1 q) \<and> org_y (obj e2 q) = org_y (obj e1 q)
            \<and> energy (obj e2 q) = energy (obj e1 q) \<and> symbol (obj e2 q) = symbol (obj e1 q)
            \<and> cls (obj e2 q) = cls (obj e1 q) \<and> (alive (obj e2 q) \<longrightarrow> alive (obj e1 q))"
      by (simp add: turn_frame_def)
    from assms(2) q2 that(2) have b: "org_x (obj e3 q) = org_x (obj e2 q) \<and> org_y (obj e3 q) = org_y (obj e2 q)
            \<and> energy (obj e3 q) = energy (obj e2 q) \<and> symbol (obj e3 q) = symbol (obj e2 q)
            \<and> cls (obj e3 q) = cls (obj e2 q) \<and> (alive (obj e3 q) \<longrightarrow> alive (obj e2 q))"
      by (simp add: turn_frame_def)
    from a b show ?thesis by simp
  qed
  from assms have "organisms e3 = organisms e1" "width e3 = width e1" "height e3 = height e1"
    by (simp_all add: turn_frame_def)
  with len q objs show ?thesis unfolding turn_frame_def by (meson order_trans)
qed

lemma atomic_dead_kept: "atomic self e e' \<Longrightarrow> dead_kept e e'"
proof (induction rule: atomic.induct)
  case (devour e prey c)
  then have "alive (obj e prey)" by (simp add: in_get_adjacent_organisms)
  with devour show ?case
    by (auto simp: dead_kept_def obj_remove_organism obj_move_organism)
next
  case (birth e ob)
  then show ?case by (simp add: dead_kept_def obj_alloc)
next
  case (death e)
  then show ?case by (auto simp: dead_kept_def obj_remove_organism)
qed (auto simp: dead_kept_def obj_modify obj_move_organism)

lemma atomic_turn_frame: "atomic self e e' \<Longrightarrow> turn_frame self e e'"
proof (induction rule: atomic.induct)
  case (devour e prey c)
  then show ?case
    by (simp add: turn_frame_def obj_remove_organism obj_move_organism)
next
  case (birth e ob)
  then show ?case by (simp add: turn_frame_def obj_alloc)
next
  case (death e)
  then show ?case by (simp add: turn_frame_def obj_remove_organism)
qed (simp_all add: turn_frame_def obj_modify obj_move_organism)

lemma atomic_refs_ok: "atomic self e e' \<Longrightarrow> refs_ok e \<Longrightarrow> refs_ok e'"
proof (induction rule: atomic.induct)
  case (birth e ob)
  then show ?case by (fastforce simp: refs_ok_def less_Suc_eq)
qed (simp_all add: refs_ok_def)


lemma occupancyI:
  assumes "refs_ok e" and "distinct (organisms e @ temp_added_organisms e)"
    and "\<And>r1 r2. r1 \<in> set (organisms e @ temp_added_organisms e) \<Longrightarrow>
           r2 \<in> set (organisms e @ temp_added_organisms e) \<Longrightarrow>
           alive (obj e r1) \<Longrightarrow> alive (obj e r2) \<Longrightarrow> org_x (obj e r1) = org_x (obj e r2) \<Longrightarrow>
           org_y (obj e r1) = org_y (obj e r2) \<Longrightarrow> r1 \<noteq> r2 \<Longrightarrow> False"
  shows "occupancy e"
  unfolding occupancy_def using assms by blast

lemma occupancyD:
  assumes "occupancy e"
    and "r1 \<in> set (organisms e @ temp_added_organisms e)"
    and "r2 \<in> set (organisms e @ temp_added_organisms e)"
    and "alive (obj e r1)" and "alive (obj e r2)"
    and "org_x (obj e r1) = org_x (obj e r2)" and "org_y (obj e r1) = org_y (obj e r2)"
  shows "r1 = r2"
  using assms unfolding occupancy_def by blast

lemma occupancy_parts:
  assumes "occupancy e"
  shows "refs_ok e" and "distinct (organisms e @ temp_added_organisms e)"
  using assms unfolding occupancy_def by blast+

text \<open>Occupancy survives any change that moves nothing, revives nothing and lists nothing new.\<close>

lemma occupancy_mono:
  assumes occ: "occupancy e"
    and lists: "set (organisms e' @ temp_added_organisms e') \<subseteq> set (organisms e @ temp_added_organisms e)"
    and dist: "distinct (organisms e' @ temp_added_organisms e')"
    and len: "length (heap e) \<le> length (heap e')"
    and objs: "\<And>r. r \<in> set (organisms e' @ temp_added_organisms e') \<Longrightarrow> alive (obj e' r) \<Longrightarrow>
        alive (obj e r) \<and> org_x (obj e' r) = org_x (obj e r) \<and> org_y (obj e' r) = org_y (obj e r)"
  shows "occupancy e'"
proof (rule occupancyI)
  show "refs_ok e'"
    using occupancy_parts(1) [OF occ] lists len unfolding refs_ok_def
    by (meson order_less_le_trans subsetD)
  show "distinct (organisms e' @ temp_added_organisms e')" by (rule dist)
next
  fix r1 r2
  assume a: "r1 \<in> set (organisms e' @ temp_added_organisms e')"
    "r2 \<in> set (organisms e' @ temp_added_organisms e')"
    "alive (obj e' r1)" "alive (obj e' r2)" "org_x (obj e' r1) = org_x (obj e' r2)"
    "org_y (obj e' r1) = org_y (obj e' r2)" "r1 \<noteq> r2"
  from objs [OF a(1) a(3)] objs [OF a(2) a(4)] a(5,6)
  have "alive (obj e r1)" "alive (obj e r2)" "org_x (obj e r1) = org_x (obj e r2)"
    "org_y (obj e r1) = org_y (obj e r2)" by simp_all
  from occupancyD [OF occ _ _ this] a(1,2) lists have "r1 = r2" by blast
  with a(7) show False by simp
qed

lemma atomic_occupancy:
  assumes "atomic self e e'" and self: "self < length (heap e)" and occ: "occupancy e"
  shows "occupancy e'"
  using assms(1)
proof (cases rule: atomic.cases)
  case (draw g)
  show ?thesis
    using occupancy_parts(2) [OF occ] by (intro occupancy_mono [OF occ]) (simp_all add: draw)
next
  case (energy k)
  show ?thesis
    using occupancy_parts(2) [OF occ]
    by (intro occupancy_mono [OF occ]) (auto simp: energy obj_modify split: if_splits)
next
  case death
  show ?thesis
    using occupancy_parts(2) [OF occ]
    by (intro occupancy_mono [OF occ]) (auto simp: death obj_remove_organism split: if_splits)
next
  case (relocate nx ny)
  have o: "obj e' r = (if r = self then (obj e self)\<lparr>org_x := nx, org_y := ny\<rparr> else obj e r)" for r
    using self by (simp add: relocate obj_move_organism)
  have l: "organisms e' = organisms e" "temp_added_organisms e' = temp_added_organisms e"
    "length (heap e') = length (heap e)" by (simp_all add: relocate)
  have empty: "\<not> (r \<in> set (organisms e @ temp_added_organisms e) \<and> org_x (obj e r) = nx
      \<and> org_y (obj e r) = ny \<and> alive (obj e r))" for r
    using relocate(3) in_get_organism_at [of r e nx ny] by simp
  show ?thesis
  proof (rule occupancyI)
    show "refs_ok e'" using occupancy_parts(1) [OF occ] by (simp add: refs_ok_def l)
    show "distinct (organisms e' @ temp_added_organisms e')"
      using occupancy_parts(2) [OF occ] by (simp add: l)
  next
    fix r1 r2
    assume a: "r1 \<in> set (organisms e' @ temp_added_organisms e')"
      "r2 \<in> set (organisms e' @ temp_added_organisms e')"
      "alive (obj e' r1)" "alive (obj e' r2)" "org_x (obj e' r1) = org_x (obj e' r2)"
      "org_y (obj e' r1) = org_y (obj e' r2)" "r1 \<noteq> r2"
    show False
    proof (cases "r1 = self")
      case True
      with a(7) have "r2 \<noteq> self" by simp
      with a True empty [of r2] show False by (simp add: o l)
    next
      case False
      show False
      proof (cases "r2 = self")
        case True
        with a False empty [of r1] show False by (simp add: o l)
      next
        case r2: False
        from a False r2 occupancyD [OF occ, of r1 r2] show False by (simp add: o l)
      qed
    qed
  qed
next
  case (devour prey c)
  from devour(3) have p: "prey \<in> set (organisms e @ temp_added_organisms e)" "alive (obj e prey)"
    and adj: "(org_x (obj e prey), org_y (obj e prey))
        \<in> set (get_adjacent_cells e (org_x (obj e self)) (org_y (obj e self)))"
    by (simp_all add: in_get_adjacent_organisms)
  from adjacent_cell_differs [OF adj] have ne: "prey \<noteq> self" by auto
  from p(1) occupancy_parts(1) [OF occ] have plt: "prey < length (heap e)"
    by (simp add: refs_ok_def)
  have o: "obj e' r = (if r = prey then (obj e prey)\<lparr>alive := False\<rparr>
      else if r = self then (obj e self)\<lparr>org_x := org_x (obj e prey), org_y := org_y (obj e prey)\<rparr>
      else obj e r)" for r
    using self plt ne by (simp add: devour obj_remove_organism obj_move_organism)
  have l: "organisms e' = organisms e" "temp_added_organisms e' = temp_added_organisms e"
    "length (heap e') = length (heap e)" by (simp_all add: devour)
  show ?thesis
  proof (rule occupancyI)
    show "refs_ok e'" using occupancy_parts(1) [OF occ] by (simp add: refs_ok_def l)
    show "distinct (organisms e' @ temp_added_organisms e')"
      using occupancy_parts(2) [OF occ] by (simp add: l)
  next
    fix r1 r2
    assume a: "r1 \<in> set (organisms e' @ temp_added_organisms e')"
      "r2 \<in> set (organisms e' @ temp_added_organisms e')"
      "alive (obj e' r1)" "alive (obj e' r2)" "org_x (obj e' r1) = org_x (obj e' r2)"
      "org_y (obj e' r1) = org_y (obj e' r2)" "r1 \<noteq> r2"
    from a(3,4) have np: "r1 \<noteq> prey" "r2 \<noteq> prey" by (auto simp: o)
    show False
    proof (cases "r1 = self")
      case True
      with a(7) have "r2 \<noteq> self" by simp
      with a True np have "alive (obj e r2)" "org_x (obj e r2) = org_x (obj e prey)"
        "org_y (obj e r2) = org_y (obj e prey)" "r2 \<in> set (organisms e @ temp_added_organisms e)"
        by (simp_all add: o l)
      from occupancyD [OF occ this(4) p(1) this(1) p(2) this(2,3)] np show False by simp
    next
      case False
      show False
      proof (cases "r2 = self")
        case True
        with a False np have "alive (obj e r1)" "org_x (obj e r1) = org_x (obj e prey)"
          "org_y (obj e r1) = org_y (obj e prey)" "r1 \<in> set (organisms e @ temp_added_organisms e)"
          by (simp_all add: o l)
        from occupancyD [OF occ this(4) p(1) this(1) p(2) this(2,3)] np show False by simp
      next
        case r2: False
        from a False r2 np occupancyD [OF occ, of r1 r2] show False by (simp add: o l)
      qed
    qed
  qed
next
  case (birth ob)
  let ?n = "length (heap e)"
  have o: "obj e' r = (if r < ?n then obj e r else if r = ?n then ob else heap e' ! r)" for r
    by (simp add: birth obj_alloc)
  have l: "organisms e' = organisms e" "temp_added_organisms e' = temp_added_organisms e @ [?n]"
    "length (heap e') = Suc ?n" by (simp_all add: birth)
  have old: "r < ?n" if "r \<in> set (organisms e @ temp_added_organisms e)" for r
    using that occupancy_parts(1) [OF occ] by (simp add: refs_ok_def)
  have empty: "\<not> (r \<in> set (organisms e @ temp_added_organisms e) \<and> org_x (obj e r) = org_x ob
      \<and> org_y (obj e r) = org_y ob \<and> alive (obj e r))" for r
    using birth(2) in_get_organism_at [of r e "org_x ob" "org_y ob"] by simp
  show ?thesis
  proof (rule occupancyI)
    show "refs_ok e'" using old by (auto simp: refs_ok_def l less_Suc_eq)
    show "distinct (organisms e' @ temp_added_organisms e')"
      using occupancy_parts(2) [OF occ] old by (auto simp: l)
  next
    fix r1 r2
    assume a: "r1 \<in> set (organisms e' @ temp_added_organisms e')"
      "r2 \<in> set (organisms e' @ temp_added_organisms e')"
      "alive (obj e' r1)" "alive (obj e' r2)" "org_x (obj e' r1) = org_x (obj e' r2)"
      "org_y (obj e' r1) = org_y (obj e' r2)" "r1 \<noteq> r2"
    show False
    proof (cases "r1 = ?n")
      case True
      with a(2,7) have r2: "r2 \<in> set (organisms e @ temp_added_organisms e)" by (auto simp: l)
      from old [OF r2] a True empty [of r2] r2 show False by (simp add: o)
    next
      case False
      with a(1) have r1: "r1 \<in> set (organisms e @ temp_added_organisms e)" by (auto simp: l)
      show False
      proof (cases "r2 = ?n")
        case True
        from old [OF r1] a True empty [of r1] r1 show False by (simp add: o)
      next
        case r2n: False
        with a(2) have r2: "r2 \<in> set (organisms e @ temp_added_organisms e)" by (auto simp: l)
        from old [OF r1] old [OF r2] a occupancyD [OF occ r1 r2] show False by (simp add: o)
      qed
    qed
  qed
qed


section \<open>Every turn is a sequence of elementary changes\<close>

lemma steps_dead_kept: "(atomic self)\<^sup>*\<^sup>* e e' \<Longrightarrow> dead_kept e e'"
  by (induction rule: rtranclp_induct)
     (auto intro: dead_kept_refl dead_kept_trans atomic_dead_kept)

lemma steps_turn_frame: "(atomic self)\<^sup>*\<^sup>* e e' \<Longrightarrow> turn_frame self e e'"
  by (induction rule: rtranclp_induct)
     (auto intro: turn_frame_refl turn_frame_trans atomic_turn_frame)

lemma steps_refs_ok: "(atomic self)\<^sup>*\<^sup>* e e' \<Longrightarrow> refs_ok e \<Longrightarrow> refs_ok e'"
  by (induction rule: rtranclp_induct) (auto intro: atomic_refs_ok)

lemma steps_occupancy:
  assumes "(atomic self)\<^sup>*\<^sup>* e e'" and "self < length (heap e)" and "occupancy e"
  shows "occupancy e'"
  using assms
proof (induction rule: rtranclp_induct)
  case base
  then show ?case by simp
next
  case (step y z)
  from steps_turn_frame [OF step(1)] step(4) have "self < length (heap y)"
    by (simp add: turn_frame_def)
  with step show ?case by (auto intro: atomic_occupancy)
qed

lemma get_adjacent_organisms_rng [simp]:
  "get_adjacent_organisms (e\<lparr>rng := g\<rparr>) px py c = get_adjacent_organisms e px py c"
  by (simp add: get_adjacent_organisms_def get_adjacent_cells_def)

lemma Animal_update_steps:
  "alive (obj e self) \<Longrightarrow> (atomic self)\<^sup>*\<^sup>* e (Animal_update self e)"
  unfolding Animal_update_def by (rule r_into_rtranclp) (rule atomic.energy)

lemma eat_steps:
  assumes "alive (obj e self)"
  shows "(atomic self)\<^sup>*\<^sup>* e (snd (eat self c gain e))"
proof (cases "fst (eat self c gain e)")
  case False
  then have "eat self c gain e = (False, snd (eat self c gain e))" by (simp add: prod_eq_iff)
  from eat_False [OF this] show ?thesis by simp
next
  case True
  then have "eat self c gain e = (True, snd (eat self c gain e))" by (simp add: prod_eq_iff)
  from eat_True [OF this] obtain prey g where
    p: "prey \<in> set (get_adjacent_organisms e (org_x (obj e self)) (org_y (obj e self)) c)"
    and e': "snd (eat self c gain e) = modify self (\<lambda>ob. ob\<lparr>energy := energy ob + gain\<rparr>)
              (remove_organism
                 (move_organism (e\<lparr>rng := g\<rparr>) self (org_x (obj e prey)) (org_y (obj e prey))) prey)"
    by blast
  let ?e1 = "e\<lparr>rng := g\<rparr>"
  let ?e3 = "remove_organism (move_organism ?e1 self (org_x (obj ?e1 prey)) (org_y (obj ?e1 prey))) prey"
  have s1: "atomic self e ?e1" by (rule atomic.draw)
  have s2: "atomic self ?e1 ?e3"
    using assms p by (intro atomic.devour [where c = c]) simp_all
  have "prey \<noteq> self" using p by (rule prey_not_self)
  then have "alive (obj ?e3 self)"
    using assms by (simp add: obj_remove_organism obj_move_organism)
  then have s3: "atomic self ?e3 (modify self (\<lambda>ob. ob\<lparr>energy := energy ob + gain\<rparr>) ?e3)"
    by (rule atomic.energy)
  from s1 s2 s3 have "(atomic self)\<^sup>*\<^sup>* e (modify self (\<lambda>ob. ob\<lparr>energy := energy ob + gain\<rparr>) ?e3)"
    by (meson rtranclp.rtrancl_into_rtrancl rtranclp.rtrancl_refl)
  then show ?thesis by (simp add: e')
qed

lemma eat_alive_self: "alive (obj (snd (eat self c gain e)) self) = alive (obj e self)"
proof (cases "fst (eat self c gain e)")
  case False
  then have "eat self c gain e = (False, snd (eat self c gain e))" by (simp add: prod_eq_iff)
  from eat_False [OF this] show ?thesis by simp
next
  case True
  then have "eat self c gain e = (True, snd (eat self c gain e))" by (simp add: prod_eq_iff)
  from eat_True [OF this] obtain prey g where
    p: "prey \<in> set (get_adjacent_organisms e (org_x (obj e self)) (org_y (obj e self)) c)"
    and e': "snd (eat self c gain e) = modify self (\<lambda>ob. ob\<lparr>energy := energy ob + gain\<rparr>)
              (remove_organism
                 (move_organism (e\<lparr>rng := g\<rparr>) self (org_x (obj e prey)) (org_y (obj e prey))) prey)"
    by blast
  have "prey \<noteq> self" using p by (rule prey_not_self)
  then show ?thesis by (simp add: e' obj_modify obj_remove_organism obj_move_organism)
qed

lemma modify_fresh_alloc:
  "modify (length (heap e)) f (snd (alloc ob e)) = snd (alloc (f ob) e)"
  by (simp add: modify_def alloc_def)

lemma birth_step:
  assumes "c \<in> set (get_adjacent_empty_cells e px py)" and "org_x ob = fst c" and "org_y ob = snd c"
    and "alive ob"
  shows "atomic self e (add_organism (snd (alloc ob e)) (length (heap e)))"
proof -
  from assms(1) have "get_organism_at e (fst c) (snd c) = []"
    using in_get_adjacent_empty_cells [of "fst c" "snd c" e px py] by simp
  with assms show ?thesis by (intro atomic.birth) simp_all
qed

lemma reproduce_False:
  "reproduce self thr chance cost child_class child_energy e = (False, e') \<Longrightarrow>
     e' = e \<or> (\<exists>g. e' = e\<lparr>rng := g\<rparr>)"
  by (auto simp: reproduce_def Let_def case_prod_beta split: if_splits)

lemma reproduce_steps:
  assumes "alive (obj e self)" and "self < length (heap e)"
  shows "(atomic self)\<^sup>*\<^sup>* e (snd (reproduce self thr chance cost child_class child_energy e))"
proof (cases "fst (reproduce self thr chance cost child_class child_energy e)")
  case False
  then have "reproduce self thr chance cost child_class child_energy e =
      (False, snd (reproduce self thr chance cost child_class child_energy e))"
    by (simp add: prod_eq_iff)
  from reproduce_False [OF this] show ?thesis
    by (metis atomic.draw r_into_rtranclp rtranclp.rtrancl_refl)
next
  case True
  then have "reproduce self thr chance cost child_class child_energy e =
      (True, snd (reproduce self thr chance cost child_class child_energy e))"
    by (simp add: prod_eq_iff)
  from reproduce_True [OF this] obtain c g where
    c: "c \<in> set (get_adjacent_empty_cells e (org_x (obj e self)) (org_y (obj e self)))"
    and e': "snd (reproduce self thr chance cost child_class child_energy e) =
       modify self (\<lambda>ob. ob\<lparr>energy := energy ob - cost\<rparr>)
                  (add_organism
                     (modify (length (heap e)) (\<lambda>ob. ob\<lparr>energy := child_energy\<rparr>)
                        (snd (alloc (construct child_class (fst c) (snd c)) (e\<lparr>rng := g\<rparr>))))
                     (length (heap e)))"
    by blast
  let ?e1 = "e\<lparr>rng := g\<rparr>"
  let ?ob = "(construct child_class (fst c) (snd c))\<lparr>energy := child_energy\<rparr>"
  let ?e3 = "add_organism (snd (alloc ?ob ?e1)) (length (heap ?e1))"
  have s1: "atomic self e ?e1" by (rule atomic.draw)
  have s2: "atomic self ?e1 ?e3"
    using c by (intro birth_step [where c = c]) simp_all
  have "alive (obj ?e3 self)" using assms by (simp add: obj_alloc)
  then have s3: "atomic self ?e3 (modify self (\<lambda>ob. ob\<lparr>energy := energy ob - cost\<rparr>) ?e3)"
    by (rule atomic.energy)
  have eq: "snd (reproduce self thr chance cost child_class child_energy e) =
      modify self (\<lambda>ob. ob\<lparr>energy := energy ob - cost\<rparr>) ?e3"
    using modify_fresh_alloc [of ?e1 "\<lambda>ob. ob\<lparr>energy := child_energy\<rparr>"
        "construct child_class (fst c) (snd c)"]
    by (simp add: e')
  from s1 s2 s3 show ?thesis unfolding eq
    by (meson rtranclp.rtrancl_into_rtrancl rtranclp.rtrancl_refl)
qed

lemma move_steps:
  assumes "alive (obj e self)"
  shows "(atomic self)\<^sup>*\<^sup>* e (move self e)"
proof (cases "move_call self e")
  case None
  then show ?thesis by (simp add: move_def)
next
  case (Some a)
  obtain e1 nx ny where a: "a = (e1, nx, ny)" by (cases a)
  from move_call_Some [OF Some [unfolded a]] obtain g where
    c: "(nx, ny) \<in> set (get_adjacent_empty_cells e (org_x (obj e self)) (org_y (obj e self)))"
    and e1: "e1 = e\<lparr>rng := g\<rparr>" by blast
  from c have "get_organism_at e1 nx ny = []" by (simp add: e1 in_get_adjacent_empty_cells)
  with assms have "atomic self e1 (move_organism e1 self nx ny)"
    by (intro atomic.relocate) (simp_all add: e1)
  moreover have "atomic self e e1" unfolding e1 by (rule atomic.draw)
  ultimately have "(atomic self)\<^sup>*\<^sup>* e (move_organism e1 self nx ny)"
    by (meson rtranclp.rtrancl_into_rtrancl rtranclp.rtrancl_refl)
  then show ?thesis by (simp add: move_def Some a)
qed

lemma survive_steps: "(atomic self)\<^sup>*\<^sup>* e (snd (survive self e))"
  by (auto simp: survive_def intro: atomic.death)


lemma Plant_update_cases:
  "Plant_update self e = e\<lparr>rng := snd (random_random (rng e))\<rparr>
   \<or> (\<exists>c g. c \<in> set (get_adjacent_empty_cells e (org_x (obj e self)) (org_y (obj e self)))
         \<and> Plant_update self e =
             add_organism (snd (alloc (Plant_init (fst c) (snd c)) (e\<lparr>rng := g\<rparr>))) (length (heap e)))"
proof -
  let ?cells = "get_adjacent_empty_cells e (org_x (obj e self)) (org_y (obj e self))"
  let ?g1 = "snd (random_random (rng e))"
  let ?ch = "random_choice ?cells ?g1"
  show ?thesis
  proof (cases "fst (random_random (rng e)) < PLANT_REPRODUCTION_CHANCE \<and> ?cells \<noteq> []")
    case False
    then show ?thesis by (auto simp: Plant_update_def Let_def case_prod_beta)
  next
    case True
    then have "Plant_update self e =
        add_organism (snd (alloc (Plant_init (fst (fst ?ch)) (snd (fst ?ch))) (e\<lparr>rng := snd ?ch\<rparr>)))
          (length (heap e))"
      by (simp add: Plant_update_def Let_def case_prod_beta)
    moreover from True have "fst ?ch \<in> set ?cells" by (intro random_choice_in) simp
    ultimately show ?thesis by blast
  qed
qed

lemma Plant_update_steps: "(atomic self)\<^sup>*\<^sup>* e (Plant_update self e)"
proof -
  from Plant_update_cases [of self e] show ?thesis
  proof
    assume "Plant_update self e = e\<lparr>rng := snd (random_random (rng e))\<rparr>"
    then show ?thesis by (simp add: atomic.draw r_into_rtranclp)
  next
    assume "\<exists>c g. c \<in> set (get_adjacent_empty_cells e (org_x (obj e self)) (org_y (obj e self)))
         \<and> Plant_update self e =
             add_organism (snd (alloc (Plant_init (fst c) (snd c)) (e\<lparr>rng := g\<rparr>))) (length (heap e))"
    then obtain c g where
      c: "c \<in> set (get_adjacent_empty_cells e (org_x (obj e self)) (org_y (obj e self)))"
      and eq: "Plant_update self e =
             add_organism (snd (alloc (Plant_init (fst c) (snd c)) (e\<lparr>rng := g\<rparr>))) (length (heap e))"
      by blast
    let ?e1 = "e\<lparr>rng := g\<rparr>"
    have s1: "atomic self e ?e1" by (rule atomic.draw)
    have s2: "atomic self ?e1
        (add_organism (snd (alloc (Plant_init (fst c) (snd c)) ?e1)) (length (heap ?e1)))"
      using c by (intro birth_step [where c = c]) (simp_all add: Plant_init_def)
    from s1 s2 show ?thesis unfolding eq
      by (metis (no_types, lifting) ecosystem.select_convs(8) ecosystem.surjective
          ecosystem.update_convs(9) rtranclp.rtrancl_into_rtrancl rtranclp.rtrancl_refl)
  qed
qed

lemma act_pattern_steps:
  assumes al: "alive (obj e self)" and self: "self < length (heap e)"
  shows "(atomic self)\<^sup>*\<^sup>* e
     (let (ate, e1) = eat self c gain e in
      if ate then e1
      else (let (bred, e2) = reproduce self thr chance cost child_class child_energy e1
            in if bred then e2 else move self e2))"
proof (cases "fst (eat self c gain e)")
  case True
  with eat_steps [OF al, of c gain] show ?thesis by (simp add: case_prod_beta)
next
  case False
  then have "eat self c gain e = (False, snd (eat self c gain e))" by (simp add: prod_eq_iff)
  from eat_False [OF this] have e1: "snd (eat self c gain e) = e" .
  let ?r = "reproduce self thr chance cost child_class child_energy e"
  have st: "(atomic self)\<^sup>*\<^sup>* e (snd ?r)" by (rule reproduce_steps [OF al self])
  show ?thesis
  proof (cases "fst ?r")
    case True
    with False st show ?thesis by (simp add: case_prod_beta e1)
  next
    case bred: False
    then have "?r = (False, snd ?r)" by (simp add: prod_eq_iff)
    from reproduce_False [OF this] have "alive (obj (snd ?r) self)" using al by auto
    from move_steps [OF this] st have "(atomic self)\<^sup>*\<^sup>* e (move self (snd ?r))" by simp
    with False bred show ?thesis by (simp add: case_prod_beta e1)
  qed
qed

lemma update_steps:
  assumes al: "alive (obj e self)" and self: "self < length (heap e)"
  shows "(atomic self)\<^sup>*\<^sup>* e (update self e)"
proof (cases "cls (obj e self)")
  case Plant
  then show ?thesis by (simp add: update_def Plant_update_steps)
next
  case Herbivore
  let ?e0 = "Animal_update self e"
  have a: "(atomic self)\<^sup>*\<^sup>* e ?e0" by (rule Animal_update_steps [OF al])
  have "(atomic self)\<^sup>*\<^sup>* ?e0 (Herbivore_act self ?e0)"
    unfolding Herbivore_act_def using al self by (intro act_pattern_steps) simp_all
  with a survive_steps [of self "Herbivore_act self ?e0"]
  have "(atomic self)\<^sup>*\<^sup>* e (snd (survive self (Herbivore_act self ?e0)))" by simp
  with Herbivore show ?thesis by (simp add: update_def Herbivore_update_def)
next
  case Carnivore
  let ?e0 = "Animal_update self e"
  have a: "(atomic self)\<^sup>*\<^sup>* e ?e0" by (rule Animal_update_steps [OF al])
  have "(atomic self)\<^sup>*\<^sup>* ?e0 (Carnivore_act self ?e0)"
    unfolding Carnivore_act_def using al self by (intro act_pattern_steps) simp_all
  with a survive_steps [of self "Carnivore_act self ?e0"]
  have "(atomic self)\<^sup>*\<^sup>* e (snd (survive self (Carnivore_act self ?e0)))" by simp
  with Carnivore show ?thesis by (simp add: update_def Carnivore_update_def)
qed

lemma turn_steps: "self < length (heap e) \<Longrightarrow> (atomic self)\<^sup>*\<^sup>* e (turn self e)"
  by (simp add: turn_def update_steps)


section \<open>The action phase, the commit and the tick\<close>

lemma turn_frame_organisms: "turn_frame self e e' \<Longrightarrow> organisms e' = organisms e"
  by (simp add: turn_frame_def)

lemma act_all_occupancy:
  "occupancy e \<Longrightarrow> set rs \<subseteq> set (organisms e) \<Longrightarrow>
     occupancy (act_all rs e) \<and> organisms (act_all rs e) = organisms e"
proof (induction rs arbitrary: e)
  case Nil
  then show ?case by simp
next
  case (Cons r rs)
  from Cons.prems have r: "r < length (heap e)"
    using occupancy_parts(1) [of e] by (simp add: refs_ok_def)
  have st: "(atomic r)\<^sup>*\<^sup>* e (turn r e)" by (rule turn_steps [OF r])
  have occ: "occupancy (turn r e)" by (rule steps_occupancy [OF st r Cons.prems(1)])
  have org: "organisms (turn r e) = organisms e"
    by (rule turn_frame_organisms [OF steps_turn_frame [OF st]])
  from Cons.IH [OF occ] Cons.prems(2) org show ?case by simp
qed

lemma act_all_frame:
  "refs_ok e \<Longrightarrow> set rs \<subseteq> set (organisms e) \<Longrightarrow> phase_frame e (act_all rs e)"
proof (induction rs arbitrary: e)
  case Nil
  then show ?case by (simp add: phase_frame_def dead_kept_refl)
next
  case (Cons r rs)
  from Cons.prems have r: "r < length (heap e)" by (simp add: refs_ok_def)
  have st: "(atomic r)\<^sup>*\<^sup>* e (turn r e)" by (rule turn_steps [OF r])
  have ok: "refs_ok (turn r e)" by (rule steps_refs_ok [OF st Cons.prems(1)])
  have tf: "turn_frame r e (turn r e)" by (rule steps_turn_frame [OF st])
  then have org: "organisms (turn r e) = organisms e" by (rule turn_frame_organisms)
  from tf obtain ds where ds: "temp_removed_organisms (turn r e) = temp_removed_organisms e @ ds"
    unfolding turn_frame_def by blast
  have dk: "dead_kept e (turn r e)" by (rule steps_dead_kept [OF st])
  from Cons.prems(2) org have "set rs \<subseteq> set (organisms (turn r e))" by simp
  from Cons.IH [OF ok this] have pf: "phase_frame (turn r e) (act_all rs (turn r e))" .
  then obtain ds' where
    "temp_removed_organisms (act_all rs (turn r e)) = temp_removed_organisms (turn r e) @ ds'"
    unfolding phase_frame_def by blast
  with ds have "temp_removed_organisms (act_all rs (turn r e)) = temp_removed_organisms e @ (ds @ ds')"
    by simp
  with pf org dk show ?case
    unfolding phase_frame_def by (auto intro: dead_kept_trans)
qed

lemma commit_births_effect:
  "heap (commit_births rs e) = heap e
   \<and> organisms (commit_births rs e) = organisms e @ filter (\<lambda>r. alive (obj e r)) rs
   \<and> temp_added_organisms (commit_births rs e) = temp_added_organisms e
   \<and> temp_removed_organisms (commit_births rs e) = temp_removed_organisms e
   \<and> rng (commit_births rs e) = rng e \<and> width (commit_births rs e) = width e
   \<and> height (commit_births rs e) = height e"
proof (induction rs arbitrary: e)
  case Nil
  then show ?case by simp
next
  case (Cons r rs)
  have "obj (e\<lparr>organisms := organisms e @ [r]\<rparr>) = obj e" by (rule ext) simp
  with Cons [of e] Cons [of "e\<lparr>organisms := organisms e @ [r]\<rparr>"] show ?case by simp
qed

lemma commit_deaths_effect:
  "heap (commit_deaths rs e) = heap e
   \<and> set (organisms (commit_deaths rs e)) \<subseteq> set (organisms e)
   \<and> (distinct (organisms e) \<longrightarrow> distinct (organisms (commit_deaths rs e)))
   \<and> (distinct (organisms e) \<longrightarrow> (\<forall>r \<in> set rs. r \<notin> set (organisms (commit_deaths rs e))))
   \<and> temp_added_organisms (commit_deaths rs e) = temp_added_organisms e
   \<and> temp_removed_organisms (commit_deaths rs e) = temp_removed_organisms e
   \<and> rng (commit_deaths rs e) = rng e \<and> width (commit_deaths rs e) = width e
   \<and> height (commit_deaths rs e) = height e"
proof (induction rs arbitrary: e)
  case Nil
  then show ?case by simp
next
  case (Cons r rs)
  let ?e1 = "if r \<in> set (organisms e) then e\<lparr>organisms := remove1 r (organisms e)\<rparr> else e"
  have sub: "set (organisms ?e1) \<subseteq> set (organisms e)" using set_remove1_subset [of r "organisms e"] by auto
  have dist: "distinct (organisms e) \<Longrightarrow> distinct (organisms ?e1)" by simp
  have gone: "distinct (organisms e) \<Longrightarrow> r \<notin> set (organisms ?e1)" by simp
  have same: "heap ?e1 = heap e" "temp_added_organisms ?e1 = temp_added_organisms e"
    "temp_removed_organisms ?e1 = temp_removed_organisms e" "rng ?e1 = rng e"
    "width ?e1 = width e" "height ?e1 = height e" by simp_all
  have step: "commit_deaths (r # rs) e = commit_deaths rs ?e1" by simp
  from Cons [of ?e1] sub dist gone same show ?case
    unfolding step by (auto simp del: commit_deaths.simps)
qed

lemma commit_effect:
  "heap (commit e) = heap e \<and> temp_added_organisms (commit e) = []
   \<and> temp_removed_organisms (commit e) = [] \<and> rng (commit e) = rng e
   \<and> width (commit e) = width e \<and> height (commit e) = height e
   \<and> set (organisms (commit e)) \<subseteq> set (organisms e @ temp_added_organisms e)
   \<and> (distinct (organisms e @ temp_added_organisms e) \<longrightarrow>
        distinct (organisms (commit e))
        \<and> (\<forall>r \<in> set (temp_removed_organisms e). r \<notin> set (organisms (commit e))))"
proof -
  let ?e1 = "commit_births (temp_added_organisms e) e"
  let ?e2 = "commit_deaths (temp_removed_organisms ?e1) ?e1"
  note b = commit_births_effect [of "temp_added_organisms e" e]
  note d = commit_deaths_effect [of "temp_removed_organisms ?e1" ?e1]
  have c: "commit e = ?e2\<lparr>temp_added_organisms := [], temp_removed_organisms := []\<rparr>"
    by (simp add: commit_def Let_def)
  have sub1: "set (organisms ?e1) \<subseteq> set (organisms e @ temp_added_organisms e)"
    using b by auto
  have dist1: "distinct (organisms e @ temp_added_organisms e) \<Longrightarrow> distinct (organisms ?e1)"
    using b by auto
  have rem: "temp_removed_organisms ?e1 = temp_removed_organisms e" using b by simp
  show ?thesis
    unfolding c using b d sub1 dist1 rem by auto
qed

lemma commit_fields [simp]:
  "heap (commit e) = heap e" "temp_added_organisms (commit e) = []"
  "temp_removed_organisms (commit e) = []" "rng (commit e) = rng e"
  "width (commit e) = width e" "height (commit e) = height e"
  using commit_effect [of e] by blast+

lemma commit_organisms_subset:
  "set (organisms (commit e)) \<subseteq> set (organisms e @ temp_added_organisms e)"
  using commit_effect [of e] by blast

lemma commit_distinct:
  "distinct (organisms e @ temp_added_organisms e) \<Longrightarrow> distinct (organisms (commit e))"
  using commit_effect [of e] by blast

lemma commit_purged:
  "distinct (organisms e @ temp_added_organisms e) \<Longrightarrow> r \<in> set (temp_removed_organisms e) \<Longrightarrow>
     r \<notin> set (organisms (commit e))"
  using commit_effect [of e] by blast

lemma obj_commit [simp]: "obj (commit e) r = obj e r"
  by (simp add: obj_def)

lemma commit_occupancy:
  assumes occ: "occupancy e"
  shows "occupancy (commit e)"
proof (rule occupancy_mono [OF occ])
  show "set (organisms (commit e) @ temp_added_organisms (commit e))
      \<subseteq> set (organisms e @ temp_added_organisms e)"
    using commit_organisms_subset [of e] by simp
  show "distinct (organisms (commit e) @ temp_added_organisms (commit e))"
    using commit_distinct [OF occupancy_parts(2) [OF occ]] by simp
  show "length (heap e) \<le> length (heap (commit e))" by simp
  show "alive (obj e r) \<and> org_x (obj (commit e) r) = org_x (obj e r)
      \<and> org_y (obj (commit e) r) = org_y (obj e r)"
    if "alive (obj (commit e) r)" for r
    using that by simp
qed

lemma commit_refs_ok:
  assumes "refs_ok e"
  shows "refs_ok (commit e)"
proof -
  have "r < length (heap e)" if "r \<in> set (organisms (commit e))" for r
    using that commit_organisms_subset [of e] assms unfolding refs_ok_def by blast
  then show ?thesis by (simp add: refs_ok_def)
qed

lemma swap_set: "i < length xs \<Longrightarrow> j < length xs \<Longrightarrow> set (swap xs i j) = set xs"
  unfolding swap_def by (rule set_swap)

lemma shuffle_loop_set:
  "k < length xs \<Longrightarrow> set (fst (shuffle_loop k xs g)) = set xs"
proof (induction k arbitrary: xs g)
  case 0
  then show ?case by simp
next
  case (Suc k)
  let ?j = "fst (randbelow (Suc k + 1) g)"
  have jeq: "?j = outputs g (cursor g) mod Suc (Suc k)" by (simp add: randbelow_def next_raw_def)
  have "outputs g (cursor g) mod Suc (Suc k) \<le> Suc k" by (rule mod_Suc_le_divisor)
  with Suc.prems have j: "?j < length xs" unfolding jeq by linarith
  have len: "length (swap xs (Suc k) ?j) = length xs" by (simp add: swap_def)
  from Suc.prems len have "k < length (swap xs (Suc k) ?j)" by simp
  from Suc.IH [OF this] swap_set [OF Suc.prems j] show ?case
    by (simp add: case_prod_beta)
qed

lemma random_shuffle_set: "set (fst (random_shuffle xs g)) = set xs"
proof (cases xs)
  case Nil
  then show ?thesis by (simp add: random_shuffle_def)
next
  case (Cons a list)
  then have "length xs - 1 < length xs" by simp
  from shuffle_loop_set [OF this] show ?thesis by (simp add: random_shuffle_def)
qed

lemma occupancy_rng [simp]: "occupancy (e\<lparr>rng := g\<rparr>) = occupancy e"
  by (simp add: occupancy_def refs_ok_def)

lemma refs_ok_rng [simp]: "refs_ok (e\<lparr>rng := g\<rparr>) = refs_ok e"
  by (simp add: refs_ok_def)

lemma tick_unfold:
  "tick e = commit (act_all (fst (random_shuffle (organisms e) (rng e)))
                      (e\<lparr>rng := snd (random_shuffle (organisms e) (rng e))\<rparr>))"
  by (simp add: tick_def case_prod_beta)

lemma tick_occupancy: "occupancy e \<Longrightarrow> occupancy (tick e)"
  unfolding tick_unfold
  by (intro commit_occupancy conjunct1 [OF act_all_occupancy]) (simp_all add: random_shuffle_set)

lemma run_ticks_occupancy: "occupancy e \<Longrightarrow> occupancy (run_ticks n e)"
  by (induction n arbitrary: e) (simp_all add: tick_occupancy)

lemma occupancy_at_most_one:
  assumes "occupancy e"
  shows "length (get_organism_at e px py) \<le> 1"
proof (rule ccontr)
  assume "\<not> length (get_organism_at e px py) \<le> 1"
  then obtain a b rest where ab: "get_organism_at e px py = a # b # rest"
    by (cases "get_organism_at e px py"; cases "tl (get_organism_at e px py)") auto
  have d: "distinct (get_organism_at e px py)"
    unfolding get_organism_at_def using occupancy_parts(2) [OF assms] by (rule distinct_filter)
  with ab have ne: "a \<noteq> b" by simp
  from ab have "a \<in> set (get_organism_at e px py)" "b \<in> set (get_organism_at e px py)" by simp_all
  then have "a \<in> set (organisms e @ temp_added_organisms e)" "b \<in> set (organisms e @ temp_added_organisms e)"
    "alive (obj e a)" "alive (obj e b)" "org_x (obj e a) = org_x (obj e b)"
    "org_y (obj e a) = org_y (obj e b)"
    by (simp_all add: in_get_organism_at)
  from occupancyD [OF assms this] ne show False by simp
qed


section \<open>Construction\<close>

lemma random_empty_cell_result:
  assumes "random_empty_cell e = Some y"
  shows "\<forall>c e'. y = Inr (c, e') \<longrightarrow>
     c \<notin> initial_helper_set e
     \<and> (\<exists>g. e' = e\<lparr>initial_helper_set := insert c (initial_helper_set e), rng := g\<rparr>)"
proof (rule random_empty_cell.raw_induct [OF _ assms])
  fix rec :: "ecosystem \<Rightarrow> (error + ((int \<times> int) \<times> ecosystem)) option" and e y
  assume IH: "\<And>x y. rec x = Some y \<Longrightarrow>
      \<forall>c e'. y = Inr (c, e') \<longrightarrow>
        c \<notin> initial_helper_set x
        \<and> (\<exists>g. e' = x\<lparr>initial_helper_set := insert c (initial_helper_set x), rng := g\<rparr>)"
    and body: "(case random_randint 0 (width e - 1) (rng e) of
        Inl err \<Rightarrow> Some (Inl err)
      | Inr (px, g1) \<Rightarrow>
          (case random_randint 0 (height e - 1) g1 of
             Inl err \<Rightarrow> Some (Inl err)
           | Inr (py, g2) \<Rightarrow>
               if (px, py) \<notin> initial_helper_set e
               then Some (Inr ((px, py),
                      e\<lparr>initial_helper_set := insert (px, py) (initial_helper_set e), rng := g2\<rparr>))
               else rec (e\<lparr>rng := g2\<rparr>))) = Some y"
  show "\<forall>c e'. y = Inr (c, e') \<longrightarrow>
        c \<notin> initial_helper_set e
        \<and> (\<exists>g. e' = e\<lparr>initial_helper_set := insert c (initial_helper_set e), rng := g\<rparr>)"
  proof (cases "random_randint 0 (width e - 1) (rng e)")
    case (Inl err)
    with body show ?thesis by auto
  next
    case (Inr a)
    obtain px g1 where a: "a = (px, g1)" by (cases a)
    show ?thesis
    proof (cases "random_randint 0 (height e - 1) g1")
      case (Inl err)
      with body Inr a show ?thesis by auto
    next
      case inr2: (Inr b)
      obtain py g2 where b: "b = (py, g2)" by (cases b)
      show ?thesis
      proof (cases "(px, py) \<in> initial_helper_set e")
        case False
        with body Inr a inr2 b show ?thesis by auto
      next
        case True
        with body Inr a inr2 b have "rec (e\<lparr>rng := g2\<rparr>) = Some y" by simp
        from IH [OF this] show ?thesis by simp
      qed
    qed
  qed
qed

lemma seeded_spawn:
  assumes sd: "seeded e" and free: "(px, py) \<notin> initial_helper_set e"
    and e1: "e1 = e\<lparr>initial_helper_set := insert (px, py) (initial_helper_set e), rng := g\<rparr>"
    and e3: "e3 = (snd (alloc (construct c px py) e1))\<lparr>organisms :=
               organisms (snd (alloc (construct c px py) e1)) @ [fst (alloc (construct c px py) e1)]\<rparr>"
  shows "seeded e3"
proof -
  let ?n = "length (heap e)"
  from sd have occ: "occupancy e" and ta: "temp_added_organisms e = []"
    and tr: "temp_removed_organisms e = []"
    and cells: "\<And>r. r \<in> set (organisms e) \<Longrightarrow> (org_x (obj e r), org_y (obj e r)) \<in> initial_helper_set e"
    by (simp_all add: seeded_def)
  have old: "r < ?n" if "r \<in> set (organisms e)" for r
    using that occupancy_parts(1) [OF occ] by (simp add: refs_ok_def)
  have l: "organisms e3 = organisms e @ [?n]" "temp_added_organisms e3 = []"
    "temp_removed_organisms e3 = []" "length (heap e3) = Suc ?n"
    "initial_helper_set e3 = insert (px, py) (initial_helper_set e)"
    by (simp_all add: e3 e1 ta tr alloc_def)
  have o: "obj e3 r = (if r < ?n then obj e r else if r = ?n then construct c px py else heap e3 ! r)" for r
    by (simp add: e3 e1 alloc_def obj_def nth_append)
  have occ3: "occupancy e3"
  proof (rule occupancyI)
    show "refs_ok e3" using old by (auto simp: refs_ok_def l less_Suc_eq)
    show "distinct (organisms e3 @ temp_added_organisms e3)"
      using occupancy_parts(2) [OF occ] old by (auto simp: l ta)
  next
    fix r1 r2
    assume a: "r1 \<in> set (organisms e3 @ temp_added_organisms e3)"
      "r2 \<in> set (organisms e3 @ temp_added_organisms e3)"
      "alive (obj e3 r1)" "alive (obj e3 r2)" "org_x (obj e3 r1) = org_x (obj e3 r2)"
      "org_y (obj e3 r1) = org_y (obj e3 r2)" "r1 \<noteq> r2"
    show False
    proof (cases "r1 = ?n")
      case True
      with a(2,7) have r2: "r2 \<in> set (organisms e)" by (auto simp: l)
      from old [OF r2] a True cells [OF r2] free show False by (simp add: o)
    next
      case False
      with a(1) have r1: "r1 \<in> set (organisms e)" by (auto simp: l)
      show False
      proof (cases "r2 = ?n")
        case True
        from old [OF r1] a True cells [OF r1] free show False by (simp add: o)
      next
        case r2n: False
        with a(2) have r2: "r2 \<in> set (organisms e)" by (auto simp: l)
        from old [OF r1] old [OF r2] a occupancyD [OF occ, of r1 r2] r1 r2 show False
          by (simp add: o)
      qed
    qed
  qed
  have "(org_x (obj e3 r), org_y (obj e3 r)) \<in> initial_helper_set e3" if "r \<in> set (organisms e3)" for r
  proof (cases "r = ?n")
    case True
    then show ?thesis by (simp add: o l)
  next
    case False
    with that have r: "r \<in> set (organisms e)" by (simp add: l)
    from old [OF r] cells [OF r] show ?thesis by (simp add: o l)
  qed
  with occ3 l show ?thesis by (simp add: seeded_def)
qed

lemma populate_loop_seeded:
  "seeded e \<Longrightarrow> populate_loop c n e = Some (Inr e') \<Longrightarrow> seeded e'"
proof (induction n arbitrary: e)
  case 0
  then show ?case by simp
next
  case (Suc n)
  from Suc.prems(2) obtain y where y: "random_empty_cell e = Some y"
    by (cases "random_empty_cell e") auto
  from Suc.prems(2) y obtain px py e1 where inr: "y = Inr ((px, py), e1)"
    by (cases y) (auto split: prod.splits)
  from random_empty_cell_result [OF y] inr obtain g where
    free: "(px, py) \<notin> initial_helper_set e"
    and e1: "e1 = e\<lparr>initial_helper_set := insert (px, py) (initial_helper_set e), rng := g\<rparr>"
    by blast
  let ?e3 = "(snd (alloc (construct c px py) e1))\<lparr>organisms :=
               organisms (snd (alloc (construct c px py) e1)) @ [fst (alloc (construct c px py) e1)]\<rparr>"
  have sd: "seeded ?e3" by (rule seeded_spawn [OF Suc.prems(1) free e1 refl])
  from Suc.prems(2) y inr have "populate_loop c n ?e3 = Some (Inr e')"
    by (simp add: truthy_def case_prod_beta)
  from Suc.IH [OF sd this] show ?case .
qed

lemma populate_seeded: "seeded e \<Longrightarrow> populate c count e = Some (Inr e') \<Longrightarrow> seeded e'"
  unfolding populate_def by (rule populate_loop_seeded)

lemma Ecosystem_init_occupancy:
  assumes "Ecosystem_init w h np nh nc ticks g = Some (Inr e)"
  shows "occupancy e \<and> temp_added_organisms e = [] \<and> temp_removed_organisms e = []"
proof -
  let ?e0 = "\<lparr>width = w, height = h, organisms = [], total_ticks = ticks,
                initial_helper_set = {}, temp_added_organisms = [],
                temp_removed_organisms = [], heap = [], rng = g\<rparr>"
  have s0: "seeded ?e0" by (simp add: seeded_def occupancy_def refs_ok_def)
  from assms obtain e1 where p1: "populate Plant np ?e0 = Some (Inr e1)"
    by (auto simp: Ecosystem_init_def split: option.splits sum.splits)
  from assms p1 obtain e2 where p2: "populate Herbivore nh e1 = Some (Inr e2)"
    by (auto simp: Ecosystem_init_def split: option.splits sum.splits)
  from assms p1 p2 obtain e3 where p3: "populate Carnivore nc e2 = Some (Inr e3)"
    and e: "e = e3\<lparr>initial_helper_set := {}\<rparr>"
    by (auto simp: Ecosystem_init_def split: option.splits sum.splits)
  have "seeded e3"
    by (rule populate_seeded [OF populate_seeded [OF populate_seeded [OF s0 p1] p2] p3])
  then show ?thesis by (simp add: e seeded_def occupancy_def refs_ok_def)
qed

lemma tick_queues [simp]:
  "temp_added_organisms (tick e) = []" "temp_removed_organisms (tick e) = []"
  by (simp_all add: tick_unfold)


lemma run_ticks_queues:
  "temp_added_organisms e = [] \<Longrightarrow> temp_removed_organisms e = [] \<Longrightarrow>
     temp_added_organisms (run_ticks n e) = [] \<and> temp_removed_organisms (run_ticks n e) = []"
  by (induction n arbitrary: e) simp_all

text \<open>
  Claim C1. For every construction that returns an ecosystem and every number of ticks run
  from it, at the tick boundary (both queues empty) every cell holds at most one alive
  organism: \<open>get_organism_at\<close> returns a list of length at most 1. This holds in particular for
  the final state of \<open>run\<close>.
\<close>

theorem occupancy_invariant:
  assumes "Ecosystem_init w h initial_plants initial_herbivores initial_carnivores ticks g
             = Some (Inr e0)"
  shows "length (get_organism_at (run_ticks n e0) px py) \<le> 1
     \<and> temp_added_organisms (run_ticks n e0) = []
     \<and> temp_removed_organisms (run_ticks n e0) = []
     \<and> length (get_organism_at (run e0) px py) \<le> 1"
proof -
  note i = Ecosystem_init_occupancy [OF assms]
  from i have occ: "occupancy (run_ticks m e0)" for m by (simp add: run_ticks_occupancy)
  from i have "temp_added_organisms (run_ticks n e0) = [] \<and> temp_removed_organisms (run_ticks n e0) = []"
    by (simp add: run_ticks_queues)
  with occupancy_at_most_one [OF occ] show ?thesis by (simp add: run_def)
qed

lemma seed0_cell:
  "random_empty_cell seed0 =
     Some (Inr ((0, 0), seed0\<lparr>initial_helper_set := {(0, 0)}, rng := sample_rng\<lparr>cursor := 2\<rparr>\<rparr>))"
  apply (subst random_empty_cell.simps)
  apply (simp add: seed0_def random_randint_def randbelow_def next_raw_def sample_rng_def)
  done

lemma seed1_cell:
  "random_empty_cell seed1 =
     Some (Inr ((1, 1), seed1\<lparr>initial_helper_set := {(1, 1), (0, 0)},
                              rng := sample_rng\<lparr>cursor := 4\<rparr>\<rparr>))"
  apply (subst random_empty_cell.simps)
  apply (simp add: seed1_def random_randint_def randbelow_def next_raw_def sample_rng_def)
  done

lemma seed0_populate: "populate Plant 1 seed0 = Some (Inr seed1)"
  apply (simp add: populate_def seed0_cell truthy_def)
  apply (simp add: seed0_def seed1_def alloc_def)
  done

lemma seed1_populate:
  "populate Herbivore 1 seed1 = Some (Inr (seeded_state\<lparr>initial_helper_set := {(1, 1), (0, 0)}\<rparr>))"
  apply (simp add: populate_def seed1_cell truthy_def)
  apply (simp add: seed1_def seeded_state_def alloc_def)
  done

lemma seeded_init: "Ecosystem_init 2 2 1 1 0 1 sample_rng = Some (Inr seeded_state)"
  apply (simp add: Ecosystem_init_def seed0_populate [unfolded seed0_def] seed1_populate)
  apply (simp add: populate_def seeded_state_def)
  done

theorem occupancy_invariant_witness:
  "Ecosystem_init 2 2 1 1 0 1 sample_rng = Some (Inr seeded_state)
   \<and> length (get_organism_at (run_ticks 3 seeded_state) 0 0) \<le> 1
   \<and> length (get_organism_at (run seeded_state) 1 1) \<le> 1"
  using occupancy_invariant [OF seeded_init, of 3 0 0] occupancy_invariant [OF seeded_init, of 0 1 1]
    seeded_init
  by simp

section \<open>Dead organisms\<close>

lemma dead_keptD:
  "dead_kept e e' \<Longrightarrow> r < length (heap e) \<Longrightarrow> \<not> alive (obj e r) \<Longrightarrow> obj e' r = obj e r"
  by (simp add: dead_kept_def)

lemma dead_kept_length: "dead_kept e e' \<Longrightarrow> length (heap e) \<le> length (heap e')"
  by (simp add: dead_kept_def)

lemma dead_kept_rng: "dead_kept e (e\<lparr>rng := g\<rparr>)"
  by (simp add: dead_kept_def)

lemma dead_kept_commit: "dead_kept e (commit e)"
  by (simp add: dead_kept_def)

lemma act_all_append: "act_all (xs @ ys) e = act_all ys (act_all xs e)"
  by (induction xs arbitrary: e) simp_all

lemma phase_frame_parts:
  assumes "phase_frame e e'"
  shows "refs_ok e'" and "organisms e' = organisms e" and "dead_kept e e'"
    and "set (temp_removed_organisms e) \<subseteq> set (temp_removed_organisms e')"
  using assms unfolding phase_frame_def by auto

lemma tick_frame:
  assumes "refs_ok e"
  shows "refs_ok (tick e) \<and> dead_kept e (tick e)"
proof -
  let ?g = "snd (random_shuffle (organisms e) (rng e))"
  let ?order = "fst (random_shuffle (organisms e) (rng e))"
  have ok: "refs_ok (e\<lparr>rng := ?g\<rparr>)" using assms by simp
  have "set ?order \<subseteq> set (organisms (e\<lparr>rng := ?g\<rparr>))" by (simp add: random_shuffle_set)
  from act_all_frame [OF ok this] have pf: "phase_frame (e\<lparr>rng := ?g\<rparr>) (act_all ?order (e\<lparr>rng := ?g\<rparr>))" .
  have "dead_kept e (act_all ?order (e\<lparr>rng := ?g\<rparr>))"
    by (rule dead_kept_trans [OF dead_kept_rng phase_frame_parts(3) [OF pf]])
  then have "dead_kept e (tick e)"
    unfolding tick_unfold by (rule dead_kept_trans [OF _ dead_kept_commit])
  moreover have "refs_ok (tick e)"
    unfolding tick_unfold by (rule commit_refs_ok [OF phase_frame_parts(1) [OF pf]])
  ultimately show ?thesis by simp
qed

lemma run_ticks_frame:
  "refs_ok e \<Longrightarrow> refs_ok (run_ticks n e) \<and> dead_kept e (run_ticks n e)"
proof (induction n arbitrary: e)
  case 0
  then show ?case by (simp add: dead_kept_refl)
next
  case (Suc n)
  from tick_frame [OF Suc.prems] have t: "refs_ok (tick e)" "dead_kept e (tick e)" by simp_all
  from Suc.IH [OF t(1)] t(2) show ?case by (auto intro: dead_kept_trans)
qed

section \<open>Starvation\<close>

lemma survive_energy [simp]: "energy (obj (snd (survive self e)) self) = energy (obj e self)"
  by (simp add: survive_def obj_remove_organism)

lemma survive_enqueues:
  assumes "energy (obj e self) \<le> 0" and "self < length (heap e)"
  shows "snd (survive self e) = remove_organism e self"
    and "self \<in> set (temp_removed_organisms (snd (survive self e)))"
    and "\<not> alive (obj (snd (survive self e)) self)"
  using assms by (simp_all add: survive_def obj_remove_organism)

lemma animal_update_shape:
  assumes "cls (obj e self) \<noteq> Plant" and "alive (obj e self)" and "self < length (heap e)"
  shows "\<exists>ex. update self e = snd (survive self ex) \<and> (atomic self)\<^sup>*\<^sup>* e ex"
proof (cases "cls (obj e self)")
  case Plant
  with assms(1) show ?thesis by simp
next
  case Herbivore
  let ?e0 = "Animal_update self e"
  have "(atomic self)\<^sup>*\<^sup>* ?e0 (Herbivore_act self ?e0)"
    unfolding Herbivore_act_def using assms(2,3) by (intro act_pattern_steps) simp_all
  with Animal_update_steps [OF assms(2)] have "(atomic self)\<^sup>*\<^sup>* e (Herbivore_act self ?e0)"
    by simp
  moreover have "update self e = snd (survive self (Herbivore_act self ?e0))"
    using Herbivore by (simp add: update_def Herbivore_update_def)
  ultimately show ?thesis by blast
next
  case Carnivore
  let ?e0 = "Animal_update self e"
  have "(atomic self)\<^sup>*\<^sup>* ?e0 (Carnivore_act self ?e0)"
    unfolding Carnivore_act_def using assms(2,3) by (intro act_pattern_steps) simp_all
  with Animal_update_steps [OF assms(2)] have "(atomic self)\<^sup>*\<^sup>* e (Carnivore_act self ?e0)"
    by simp
  moreover have "update self e = snd (survive self (Carnivore_act self ?e0))"
    using Carnivore by (simp add: update_def Carnivore_update_def)
  ultimately show ?thesis by blast
qed

lemma starved_update:
  assumes "cls (obj e self) \<noteq> Plant" and "alive (obj e self)" and "self < length (heap e)"
    and "energy (obj (update self e) self) \<le> 0"
  shows "self \<in> set (temp_removed_organisms (update self e)) \<and> \<not> alive (obj (update self e) self)"
proof -
  from animal_update_shape [OF assms(1-3)] obtain ex where
    u: "update self e = snd (survive self ex)" and st: "(atomic self)\<^sup>*\<^sup>* e ex" by blast
  from steps_turn_frame [OF st] assms(3) have lt: "self < length (heap ex)"
    by (simp add: turn_frame_def)
  from assms(4) have en: "energy (obj ex self) \<le> 0" by (simp add: u)
  from survive_enqueues(2,3) [OF en lt] show ?thesis by (simp add: u)
qed

text \<open>
  Claim C5. Take any tick of any run: the state \<open>e\<close> at a tick boundary, the shuffled order
  \<open>pre @ r # post\<close> of that tick, and the state \<open>e1\<close> in which the turn of \<open>r\<close> arrives. If \<open>r\<close>
  is an animal that is alive then (so it takes its turn) and its energy at the end of the turn
  is at most 0, then the turn has put \<open>r\<close> in the queue of deaths and cleared its alive flag,
  and at the next tick boundary \<open>r\<close> is not in main storage.
\<close>

theorem starved_animal_purged:
  assumes "Ecosystem_init w h initial_plants initial_herbivores initial_carnivores ticks g
             = Some (Inr e0)"
    and "e = run_ticks n e0"
    and "random_shuffle (organisms e) (rng e) = (pre @ r # post, g1)"
    and "e1 = act_all pre (e\<lparr>rng := g1\<rparr>)"
    and "alive (obj e1 r)" and "cls (obj e1 r) \<noteq> Plant"
    and "energy (obj (update r e1) r) \<le> 0"
  shows "r \<in> set (temp_removed_organisms (update r e1))
     \<and> \<not> alive (obj (update r e1) r)
     \<and> tick e = commit (act_all post (update r e1))
     \<and> r \<notin> set (organisms (tick e))
     \<and> \<not> alive (obj (tick e) r)"
proof -
  let ?es = "e\<lparr>rng := g1\<rparr>"
  from Ecosystem_init_occupancy [OF assms(1)] have occ: "occupancy e"
    by (simp add: assms(2) run_ticks_occupancy)
  then have occs: "occupancy ?es" by simp
  from assms(3) have order: "fst (random_shuffle (organisms e) (rng e)) = pre @ r # post"
    and g1: "snd (random_shuffle (organisms e) (rng e)) = g1" by simp_all
  from random_shuffle_set [of "organisms e" "rng e"] order
  have sub: "set (pre @ r # post) \<subseteq> set (organisms ?es)" by simp
  then have subpre: "set pre \<subseteq> set (organisms ?es)" by simp
  from act_all_occupancy [OF occs subpre] have occ1: "occupancy e1" and org1: "organisms e1 = organisms e"
    by (simp_all add: assms(4))
  from sub org1 have rin: "r \<in> set (organisms e1)" by simp
  with occupancy_parts(1) [OF occ1] have rlt: "r < length (heap e1)" by (simp add: refs_ok_def)
  let ?e2 = "update r e1"
  from starved_update [OF assms(6,5) rlt assms(7)]
  have q: "r \<in> set (temp_removed_organisms ?e2)" and d: "\<not> alive (obj ?e2 r)" by simp_all
  have t2: "turn r e1 = ?e2" using assms(5) by (simp add: turn_def)
  have st: "(atomic r)\<^sup>*\<^sup>* e1 ?e2" by (rule update_steps [OF assms(5) rlt])
  have occ2: "occupancy ?e2" by (rule steps_occupancy [OF st rlt occ1])
  have org2: "organisms ?e2 = organisms e"
    using turn_frame_organisms [OF steps_turn_frame [OF st]] org1 by simp
  from steps_turn_frame [OF st] rlt have rlt2: "r < length (heap ?e2)" by (simp add: turn_frame_def)
  from sub org2 have subpost: "set post \<subseteq> set (organisms ?e2)" by simp
  let ?e3 = "act_all post ?e2"
  from act_all_occupancy [OF occ2 subpost] have occ3: "occupancy ?e3" by simp
  note pf = act_all_frame [OF occupancy_parts(1) [OF occ2] subpost]
  from phase_frame_parts(4) [OF pf] q have q3: "r \<in> set (temp_removed_organisms ?e3)" by blast
  from dead_keptD [OF phase_frame_parts(3) [OF pf] rlt2 d] d have d3: "\<not> alive (obj ?e3 r)" by simp
  have tk: "tick e = commit ?e3"
    using t2 by (simp add: tick_unfold order g1 act_all_append assms(4))
  have gone: "r \<notin> set (organisms (commit ?e3))"
    by (rule commit_purged [OF occupancy_parts(2) [OF occ3] q3])
  from q d tk gone d3 show ?thesis by simp
qed


lemma lonely0_cell:
  "random_empty_cell lonely0 =
     Some (Inr ((0, 0), lonely0\<lparr>initial_helper_set := {(0, 0)}, rng := sample_rng\<lparr>cursor := 2\<rparr>\<rparr>))"
  apply (subst random_empty_cell.simps)
  apply (simp add: lonely0_def random_randint_def randbelow_def next_raw_def sample_rng_def)
  done

lemma lonely0_populate:
  "populate Herbivore 1 lonely0 = Some (Inr ((lonely 15)\<lparr>initial_helper_set := {(0, 0)}\<rparr>))"
  apply (simp add: populate_def lonely0_cell truthy_def)
  apply (simp add: lonely0_def lonely_def alloc_def Herbivore_init_def HERBIVORE_INITIAL_ENERGY_def)
  done

lemma lonely_init: "Ecosystem_init 1 1 0 1 0 15 sample_rng = Some (Inr (lonely 15))"
  apply (simp add: Ecosystem_init_def)
  apply (simp add: populate_def [of Plant] populate_def [of Carnivore]
      lonely0_populate [unfolded lonely0_def])
  apply (simp add: lonely_def)
  done

lemma lonely_update:
  "k \<le> 20 \<Longrightarrow> update 0 (lonely k) = snd (survive 0 (lonely (k - 1)))"
  by (simp add: update_def Herbivore_update_def Herbivore_act_def lonely_def obj_def
      Herbivore_init_def Animal_update_def modify_def eat_def eat_call_def move_def move_call_def
      get_adjacent_organisms_def get_adjacent_empty_cells_def get_adjacent_cells_def
      DIRECTIONS_def reproduce_def METABOLIC_ENERGY_COST_def
      HERBIVORE_REPRODUCTION_ENERGY_THRESHOLD_def)

lemma lonely_tick: "1 < k \<Longrightarrow> k \<le> 20 \<Longrightarrow> tick (lonely k) = lonely (k - 1)"
proof -
  assume k: "1 < k" "k \<le> 20"
  have sh: "random_shuffle (organisms (lonely k)) (rng (lonely k)) = ([0], rng (lonely k))"
    by (simp add: random_shuffle_def lonely_def)
  have al: "alive (obj (lonely k) 0)" by (simp add: lonely_def obj_def Herbivore_init_def)
  have sv: "snd (survive 0 (lonely (k - 1))) = lonely (k - 1)"
    using k by (simp add: survive_def lonely_def obj_def)
  have "tick (lonely k) = commit (lonely (k - 1))"
    using al by (simp add: tick_def sh turn_def lonely_update [OF k(2)] sv)
  also have "\<dots> = lonely (k - 1)" by (simp add: commit_def lonely_def)
  finally show ?thesis .
qed

lemma lonely_run: "run_ticks 14 (lonely 15) = lonely 1"
  by (simp add: eval_nat_numeral lonely_tick)

theorem starved_animal_purged_witness:
  "Ecosystem_init 1 1 0 1 0 15 sample_rng = Some (Inr (lonely 15))
   \<and> lonely 1 = run_ticks 14 (lonely 15)
   \<and> alive (obj (lonely 1) 0) \<and> cls (obj (lonely 1) 0) \<noteq> Plant
   \<and> energy (obj (update 0 (lonely 1)) 0) \<le> 0
   \<and> 0 \<in> set (temp_removed_organisms (update 0 (lonely 1)))
   \<and> 0 \<notin> set (organisms (tick (lonely 1)))"
proof -
  have h2: "lonely 1 = run_ticks 14 (lonely 15)" by (simp add: lonely_run)
  have h3: "random_shuffle (organisms (lonely 1)) (rng (lonely 1)) = ([] @ 0 # [], rng (lonely 1))"
    by (simp add: random_shuffle_def lonely_def)
  have h4: "lonely 1 = act_all [] ((lonely 1)\<lparr>rng := rng (lonely 1)\<rparr>)" by simp
  have h5: "alive (obj (lonely 1) 0)" by (simp add: lonely_def obj_def Herbivore_init_def)
  have h6: "cls (obj (lonely 1) 0) \<noteq> Plant" by (simp add: lonely_def obj_def Herbivore_init_def)
  have h7: "energy (obj (update 0 (lonely 1)) 0) \<le> 0"
    by (simp add: lonely_update) (simp add: lonely_def obj_def)
  from starved_animal_purged [OF lonely_init h2 h3 h4 h5 h6 h7] lonely_init h2 h5 h6 h7
  show ?thesis by blast
qed

section \<open>The placement search\<close>

lemma randint_pos:
  "0 < w \<Longrightarrow> random_randint 0 (w - 1) g =
     Inr (int (outputs g (cursor g) mod nat w), g\<lparr>cursor := Suc (cursor g)\<rparr>)"
  by (simp add: random_randint_def randbelow_def next_raw_def)

lemma search_body:
  assumes "0 < width e" and "0 < height e"
  shows "(case random_randint 0 (width e - 1) (rng e) of
        Inl err \<Rightarrow> Some (Inl err)
      | Inr (px, g1) \<Rightarrow>
          (case random_randint 0 (height e - 1) g1 of
             Inl err \<Rightarrow> Some (Inl err)
           | Inr (py, g2) \<Rightarrow>
               if (px, py) \<notin> initial_helper_set e
               then Some (Inr ((px, py),
                      e\<lparr>initial_helper_set := insert (px, py) (initial_helper_set e), rng := g2\<rparr>))
               else rec (e\<lparr>rng := g2\<rparr>))) =
     (if drawn_cell e 0 \<notin> initial_helper_set e
      then Some (Inr (drawn_cell e 0,
             e\<lparr>initial_helper_set := insert (drawn_cell e 0) (initial_helper_set e),
               rng := (rng e)\<lparr>cursor := cursor (rng e) + 2\<rparr>\<rparr>))
      else rec (e\<lparr>rng := (rng e)\<lparr>cursor := cursor (rng e) + 2\<rparr>\<rparr>))"
  using assms by (simp add: randint_pos drawn_cell_def)

lemma search_unfold:
  assumes "0 < width e" and "0 < height e"
  shows "random_empty_cell e =
     (if drawn_cell e 0 \<notin> initial_helper_set e
      then Some (Inr (drawn_cell e 0,
             e\<lparr>initial_helper_set := insert (drawn_cell e 0) (initial_helper_set e),
               rng := (rng e)\<lparr>cursor := cursor (rng e) + 2\<rparr>\<rparr>))
      else random_empty_cell (e\<lparr>rng := (rng e)\<lparr>cursor := cursor (rng e) + 2\<rparr>\<rparr>))"
  by (subst random_empty_cell.simps) (rule search_body [OF assms])

lemma drawn_cell_shift [simp]:
  "drawn_cell (e\<lparr>rng := (rng e)\<lparr>cursor := Suc (Suc (cursor (rng e)))\<rparr>\<rparr>) k = drawn_cell e (Suc k)"
  by (simp add: drawn_cell_def)

lemma drawn_cell_in_grid:
  assumes "0 < width e" and "0 < height e"
  shows "0 \<le> fst (drawn_cell e k) \<and> fst (drawn_cell e k) < width e
     \<and> 0 \<le> snd (drawn_cell e k) \<and> snd (drawn_cell e k) < height e"
proof -
  have "int (m mod nat w) < w" if "0 < w" for m :: nat and w :: int
  proof -
    from that have "m mod nat w < nat w" by simp
    then show ?thesis by (simp only: zless_nat_eq_int_zless)
  qed
  from this [OF assms(1)] this [OF assms(2)] show ?thesis
    by (simp add: drawn_cell_def)
qed

lemma search_returns:
  "0 < width e \<Longrightarrow> 0 < height e \<Longrightarrow> drawn_cell e k \<notin> initial_helper_set e \<Longrightarrow>
     \<exists>y. random_empty_cell e = Some y"
proof (induction k arbitrary: e)
  case 0
  then show ?case by (simp add: search_unfold)
next
  case (Suc k)
  let ?e2 = "e\<lparr>rng := (rng e)\<lparr>cursor := cursor (rng e) + 2\<rparr>\<rparr>"
  show ?case
  proof (cases "drawn_cell e 0 \<in> initial_helper_set e")
    case False
    with Suc.prems show ?thesis by (simp add: search_unfold)
  next
    case True
    have "drawn_cell ?e2 k \<notin> initial_helper_set ?e2"
      using Suc.prems(3) by simp
    from Suc.IH [OF _ _ this] Suc.prems(1,2) have "\<exists>y. random_empty_cell ?e2 = Some y" by simp
    with True Suc.prems(1,2) show ?thesis by (simp add: search_unfold [of e])
  qed
qed

lemma search_result:
  assumes "random_empty_cell e = Some y"
  shows "0 < width e \<and> 0 < height e \<longrightarrow>
     (\<exists>k e'. y = Inr (drawn_cell e k, e') \<and> drawn_cell e k \<notin> initial_helper_set e
        \<and> initial_helper_set e' = insert (drawn_cell e k) (initial_helper_set e))"
proof (rule random_empty_cell.raw_induct [OF _ assms])
  fix rec :: "ecosystem \<Rightarrow> (error + ((int \<times> int) \<times> ecosystem)) option" and e y
  assume IH: "\<And>x y. rec x = Some y \<Longrightarrow>
      0 < width x \<and> 0 < height x \<longrightarrow>
       (\<exists>k e'. y = Inr (drawn_cell x k, e') \<and> drawn_cell x k \<notin> initial_helper_set x
          \<and> initial_helper_set e' = insert (drawn_cell x k) (initial_helper_set x))"
    and body: "(case random_randint 0 (width e - 1) (rng e) of
        Inl err \<Rightarrow> Some (Inl err)
      | Inr (px, g1) \<Rightarrow>
          (case random_randint 0 (height e - 1) g1 of
             Inl err \<Rightarrow> Some (Inl err)
           | Inr (py, g2) \<Rightarrow>
               if (px, py) \<notin> initial_helper_set e
               then Some (Inr ((px, py),
                      e\<lparr>initial_helper_set := insert (px, py) (initial_helper_set e), rng := g2\<rparr>))
               else rec (e\<lparr>rng := g2\<rparr>))) = Some y"
  show "0 < width e \<and> 0 < height e \<longrightarrow>
       (\<exists>k e'. y = Inr (drawn_cell e k, e') \<and> drawn_cell e k \<notin> initial_helper_set e
          \<and> initial_helper_set e' = insert (drawn_cell e k) (initial_helper_set e))"
  proof
    assume dims: "0 < width e \<and> 0 < height e"
    let ?e2 = "e\<lparr>rng := (rng e)\<lparr>cursor := cursor (rng e) + 2\<rparr>\<rparr>"
    note b = body [unfolded search_body [of e rec, OF conjunct1 [OF dims] conjunct2 [OF dims]]]
    show "\<exists>k e'. y = Inr (drawn_cell e k, e') \<and> drawn_cell e k \<notin> initial_helper_set e
          \<and> initial_helper_set e' = insert (drawn_cell e k) (initial_helper_set e)"
    proof (cases "drawn_cell e 0 \<in> initial_helper_set e")
      case False
      with b have "y = Inr (drawn_cell e 0,
             e\<lparr>initial_helper_set := insert (drawn_cell e 0) (initial_helper_set e),
               rng := (rng e)\<lparr>cursor := cursor (rng e) + 2\<rparr>\<rparr>)" by simp
      with False show ?thesis by (intro exI [of _ 0]) auto
    next
      case True
      with b have "rec ?e2 = Some y" by simp
      from IH [OF this] dims obtain k e' where
        "y = Inr (drawn_cell ?e2 k, e')" "drawn_cell ?e2 k \<notin> initial_helper_set ?e2"
        "initial_helper_set e' = insert (drawn_cell ?e2 k) (initial_helper_set ?e2)"
        by auto
      then show ?thesis by (intro exI [of _ "Suc k"]) auto
    qed
  qed
qed

lemma full_never_returns:
  assumes "0 < width e" and "0 < height e"
    and "\<forall>px py. 0 \<le> px \<and> px < width e \<and> 0 \<le> py \<and> py < height e \<longrightarrow>
           (px, py) \<in> initial_helper_set e"
  shows "random_empty_cell e = None"
proof (cases "random_empty_cell e")
  case None
  then show ?thesis .
next
  case (Some y)
  from search_result [OF Some] assms(1,2) obtain k where k: "drawn_cell e k \<notin> initial_helper_set e"
    by auto
  from drawn_cell_in_grid [OF assms(1,2), of k] assms(3) have "drawn_cell e k \<in> initial_helper_set e"
    by (cases "drawn_cell e k") auto
  with k show ?thesis by simp
qed

lemma populate_loop_count:
  "populate_loop c n e = Some (Inr e') \<Longrightarrow> length (organisms e') = length (organisms e) + n"
proof (induction n arbitrary: e)
  case 0
  then show ?case by simp
next
  case (Suc n)
  from Suc.prems obtain y where y: "random_empty_cell e = Some y"
    by (cases "random_empty_cell e") auto
  from Suc.prems y obtain px py e1 where inr: "y = Inr ((px, py), e1)"
    by (cases y) (auto split: prod.splits)
  from random_empty_cell_result [OF y] inr obtain g where
    e1: "e1 = e\<lparr>initial_helper_set := insert (px, py) (initial_helper_set e), rng := g\<rparr>"
    by blast
  let ?e3 = "(snd (alloc (construct c px py) e1))\<lparr>organisms :=
               organisms (snd (alloc (construct c px py) e1)) @ [fst (alloc (construct c px py) e1)]\<rparr>"
  from Suc.prems y inr have "populate_loop c n ?e3 = Some (Inr e')"
    by (simp add: truthy_def case_prod_beta)
  from Suc.IH [OF this] show ?case by (simp add: e1)
qed


lemma full_state_full:
  "0 < width full_state" "0 < height full_state"
  "\<forall>px py. 0 \<le> px \<and> px < width full_state \<and> 0 \<le> py \<and> py < height full_state \<longrightarrow>
           (px, py) \<in> initial_helper_set full_state"
  by (auto simp: full_state_def)

lemma full0_cell:
  "random_empty_cell full0 =
     Some (Inr ((0, 0), full0\<lparr>initial_helper_set := {(0, 0)}, rng := sample_rng\<lparr>cursor := 2\<rparr>\<rparr>))"
  apply (subst random_empty_cell.simps)
  apply (simp add: full0_def random_randint_def randbelow_def next_raw_def sample_rng_def)
  done

lemma full0_spawn:
  "populate_loop Plant (Suc n) full0 = populate_loop Plant n full_state"
  apply (simp add: full0_cell truthy_def)
  apply (simp add: full0_def full_state_def alloc_def)
  done

theorem placement_search_counterexample:
  "random_empty_cell full_state = None \<and> Ecosystem_init 1 1 2 0 0 1 sample_rng = None"
proof -
  have none: "random_empty_cell full_state = None"
    by (rule full_never_returns [OF full_state_full])
  have "populate Plant 2 full0 = None"
    by (simp add: populate_def eval_nat_numeral full0_spawn none del: populate_loop.simps(2))
       (simp add: none)
  then have "Ecosystem_init 1 1 2 0 0 1 sample_rng = None"
    by (simp add: Ecosystem_init_def full0_def)
  with none show ?thesis by simp
qed

section \<open>What a turn does to the other objects and to a dying actor\<close>

lemma flag_only_refl: "flag_only self e e"
  by (simp add: flag_only_def)

lemma flag_only_trans:
  assumes "flag_only self e1 e2" and "flag_only self e2 e3"
  shows "flag_only self e1 e3"
proof -
  from assms have len: "length (heap e1) \<le> length (heap e2)" "length (heap e2) \<le> length (heap e3)"
    by (simp_all add: flag_only_def)
  have "obj e3 q = obj e1 q \<or> (alive (obj e1 q) \<and> obj e3 q = (obj e1 q)\<lparr>alive := False\<rparr>)"
    if q: "q < length (heap e1)" "q \<noteq> self" for q
  proof -
    from q len have q2: "q < length (heap e2)" by simp
    from assms(1) q have a: "obj e2 q = obj e1 q \<or> (alive (obj e1 q) \<and> obj e2 q = (obj e1 q)\<lparr>alive := False\<rparr>)"
      by (simp add: flag_only_def)
    from assms(2) q2 q(2) have b: "obj e3 q = obj e2 q \<or> (alive (obj e2 q) \<and> obj e3 q = (obj e2 q)\<lparr>alive := False\<rparr>)"
      by (simp add: flag_only_def)
    from a show ?thesis
    proof
      assume "obj e2 q = obj e1 q"
      with b show ?thesis by simp
    next
      assume c: "alive (obj e1 q) \<and> obj e2 q = (obj e1 q)\<lparr>alive := False\<rparr>"
      then have "\<not> alive (obj e2 q)" by simp
      with b have "obj e3 q = obj e2 q" by blast
      with c show ?thesis by simp
    qed
  qed
  with len show ?thesis unfolding flag_only_def by (meson order_trans)
qed

lemma atomic_flag_only: "atomic self e e' \<Longrightarrow> flag_only self e e'"
proof (induction rule: atomic.induct)
  case (devour e prey c)
  then have "alive (obj e prey)" by (simp add: in_get_adjacent_organisms)
  then show ?case
    by (simp add: flag_only_def obj_remove_organism obj_move_organism)
next
  case (birth e ob)
  then show ?case by (simp add: flag_only_def obj_alloc)
next
  case (death e)
  then show ?case by (simp add: flag_only_def obj_remove_organism)
qed (simp_all add: flag_only_def obj_modify obj_move_organism)

lemma steps_flag_only: "(atomic self)\<^sup>*\<^sup>* e e' \<Longrightarrow> flag_only self e e'"
  by (induction rule: rtranclp_induct)
     (auto intro: flag_only_refl flag_only_trans atomic_flag_only)

lemma move_alive_self: "alive (obj (move self e) self) = alive (obj e self)"
proof (cases "move_call self e")
  case None
  then show ?thesis by (simp add: move_def)
next
  case (Some a)
  obtain e1 nx ny where a: "a = (e1, nx, ny)" by (cases a)
  from move_call_Some(2) [OF Some [unfolded a]] obtain g where e1: "e1 = e\<lparr>rng := g\<rparr>" by blast
  show ?thesis by (simp add: move_def Some a e1 obj_move_organism)
qed

lemma reproduce_alive_self:
  assumes "self < length (heap e)"
  shows "alive (obj (snd (reproduce self thr chance cost child_class child_energy e)) self)
     = alive (obj e self)"
proof (cases "fst (reproduce self thr chance cost child_class child_energy e)")
  case False
  then have "reproduce self thr chance cost child_class child_energy e =
      (False, snd (reproduce self thr chance cost child_class child_energy e))"
    by (simp add: prod_eq_iff)
  from reproduce_False [OF this] show ?thesis by auto
next
  case True
  then have "reproduce self thr chance cost child_class child_energy e =
      (True, snd (reproduce self thr chance cost child_class child_energy e))"
    by (simp add: prod_eq_iff)
  from reproduce_effect [OF assms this] show ?thesis by simp
qed

lemma act_pattern_alive:
  assumes self: "self < length (heap e)"
  shows "alive (obj
     (let (ate, e1) = eat self c gain e in
      if ate then e1
      else (let (bred, e2) = reproduce self thr chance cost child_class child_energy e1
            in if bred then e2 else move self e2)) self) = alive (obj e self)"
proof (cases "fst (eat self c gain e)")
  case True
  with eat_alive_self [of self c gain e] show ?thesis by (simp add: case_prod_beta)
next
  case False
  then have "eat self c gain e = (False, snd (eat self c gain e))" by (simp add: prod_eq_iff)
  from eat_False [OF this] have e1: "snd (eat self c gain e) = e" .
  let ?r = "reproduce self thr chance cost child_class child_energy e"
  show ?thesis
  proof (cases "fst ?r")
    case True
    with False reproduce_alive_self [OF self, of thr chance cost child_class child_energy]
    show ?thesis by (simp add: case_prod_beta e1)
  next
    case bred: False
    with False reproduce_alive_self [OF self, of thr chance cost child_class child_energy]
      move_alive_self [of self "snd ?r"]
    show ?thesis by (simp add: case_prod_beta e1)
  qed
qed

lemma obj_survive:
  "self < length (heap e) \<Longrightarrow>
     obj (snd (survive self e)) self =
       (if energy (obj e self) \<le> 0 then (obj e self)\<lparr>alive := False\<rparr> else obj e self)"
  by (simp add: survive_def obj_remove_organism)

lemma act_pattern_length:
  assumes "alive (obj e self)" and "self < length (heap e)"
  shows "self < length (heap
     (let (ate, e1) = eat self c gain e in
      if ate then e1
      else (let (bred, e2) = reproduce self thr chance cost child_class child_energy e1
            in if bred then e2 else move self e2)))"
  using steps_turn_frame [OF act_pattern_steps [OF assms, of c gain thr chance cost child_class child_energy]]
    assms(2)
  by (simp add: turn_frame_def)

lemma Plant_update_self: "self < length (heap e) \<Longrightarrow> obj (Plant_update self e) self = obj e self"
  using Plant_update_cases [of self e] by (auto simp: obj_alloc)


lemma grazing_turn: "turn 0 grazing_state = eaten_state"
proof -
  have al: "alive (obj grazing_state 0)" "cls (obj grazing_state 0) = Herbivore"
    by (simp_all add: grazing_state_def obj_def Herbivore_init_def)
  have sv: "snd (survive 0 eaten_state) = eaten_state"
    by (simp add: survive_def eaten_state_def grazing_state_def obj_def)
  show ?thesis
    using al
    by (simp add: turn_def update_def Herbivore_update_def Herbivore_act_def
        grazing_eat [folded eaten_state_def] sv)
qed

text \<open>
  Claim C9. In a state \<open>e\<close> whose references are valid:
  \<^item> an object \<open>r\<close> whose alive flag is false takes no turn (its round of the scheduler leaves
    the state as it is), is returned by no query, so is never chosen as prey, and is the same
    object, with all its attributes, after any further turns of the action phase, after the
    commit, and after any number of later ticks;
  \<^item> a turn of \<open>s\<close> changes no attribute of any other object \<open>q\<close>, except that it may clear the
    alive flag of a \<open>q\<close> that was alive (the prey): such a \<open>q\<close> ends the turn that kills it with
    the position, energy, symbol and class it had before that turn;
  \<^item> the actor of a turn is alive up to the survive check that ends the turn, and that check
    changes nothing of the actor but its alive flag, so an animal that dies in its own turn
    keeps the attributes it had when the flag was cleared; a plant's turn does not change
    the plant.
\<close>

theorem dead_is_frozen:
  assumes "refs_ok e"
  shows "(\<forall>r < length (heap e). \<not> alive (obj e r) \<longrightarrow>
        turn r e = e
        \<and> (\<forall>px py c. r \<notin> set (get_adjacent_organisms e px py c))
        \<and> (\<forall>px py. r \<notin> set (get_organism_at e px py))
        \<and> (\<forall>rs. set rs \<subseteq> set (organisms e) \<longrightarrow>
              obj (act_all rs e) r = obj e r
              \<and> (\<forall>n. obj (run_ticks n (commit (act_all rs e))) r = obj e r
                    \<and> turn r (run_ticks n (commit (act_all rs e)))
                        = run_ticks n (commit (act_all rs e))))
        \<and> (\<forall>n. obj (run_ticks n e) r = obj e r \<and> turn r (run_ticks n e) = run_ticks n e))
     \<and> (\<forall>s < length (heap e). \<forall>q < length (heap e). q \<noteq> s \<longrightarrow>
          obj (turn s e) q = obj e q
          \<or> (alive (obj e q) \<and> obj (turn s e) q = (obj e q)\<lparr>alive := False\<rparr>))
     \<and> (\<forall>s < length (heap e). alive (obj e s) \<longrightarrow>
          (cls (obj e s) = Plant \<longrightarrow> obj (update s e) s = obj e s)
          \<and> (cls (obj e s) = Herbivore \<longrightarrow>
                alive (obj (Herbivore_act s (Animal_update s e)) s)
                \<and> obj (update s e) s =
                    (if energy (obj (Herbivore_act s (Animal_update s e)) s) \<le> 0
                     then (obj (Herbivore_act s (Animal_update s e)) s)\<lparr>alive := False\<rparr>
                     else obj (Herbivore_act s (Animal_update s e)) s))
          \<and> (cls (obj e s) = Carnivore \<longrightarrow>
                alive (obj (Carnivore_act s (Animal_update s e)) s)
                \<and> obj (update s e) s =
                    (if energy (obj (Carnivore_act s (Animal_update s e)) s) \<le> 0
                     then (obj (Carnivore_act s (Animal_update s e)) s)\<lparr>alive := False\<rparr>
                     else obj (Carnivore_act s (Animal_update s e)) s)))"
proof (intro conjI allI impI)
  fix r assume r: "r < length (heap e)" "\<not> alive (obj e r)"
  show "turn r e = e" using r(2) by (simp add: turn_def)
  show "r \<notin> set (get_adjacent_organisms e px py c)" for px py c
    using r(2) by (simp add: in_get_adjacent_organisms)
  show "r \<notin> set (get_organism_at e px py)" for px py
    using r(2) by (simp add: in_get_organism_at)
  {
    fix n
    from run_ticks_frame [OF assms, of n] have "dead_kept e (run_ticks n e)" by simp
    from dead_keptD [OF this r] show o: "obj (run_ticks n e) r = obj e r" .
    with r(2) show "turn r (run_ticks n e) = run_ticks n e" by (simp add: turn_def)
  }
  {
    fix rs assume rs: "set rs \<subseteq> set (organisms e)"
    note pf = act_all_frame [OF assms rs]
    from dead_keptD [OF phase_frame_parts(3) [OF pf] r]
    show "obj (act_all rs e) r = obj e r" .
    fix n
    let ?c = "commit (act_all rs e)"
    have okc: "refs_ok ?c" by (rule commit_refs_ok [OF phase_frame_parts(1) [OF pf]])
    have "dead_kept e ?c"
      by (rule dead_kept_trans [OF phase_frame_parts(3) [OF pf] dead_kept_commit])
    moreover from run_ticks_frame [OF okc, of n] have "dead_kept ?c (run_ticks n ?c)" by simp
    ultimately have "dead_kept e (run_ticks n ?c)" by (rule dead_kept_trans)
    from dead_keptD [OF this r] show o: "obj (run_ticks n ?c) r = obj e r" .
    with r(2) show "turn r (run_ticks n ?c) = run_ticks n ?c" by (simp add: turn_def)
  }
next
  fix s q assume s: "s < length (heap e)" and q: "q < length (heap e)" "q \<noteq> s"
  from steps_flag_only [OF turn_steps [OF s]] q
  show "obj (turn s e) q = obj e q
          \<or> (alive (obj e q) \<and> obj (turn s e) q = (obj e q)\<lparr>alive := False\<rparr>)"
    by (simp add: flag_only_def)
next
  fix s assume s: "s < length (heap e)" and al: "alive (obj e s)"
  let ?e0 = "Animal_update s e"
  have s0: "s < length (heap ?e0)" and al0: "alive (obj ?e0 s)" using s al by simp_all
  {
    assume "cls (obj e s) = Plant"
    then show "obj (update s e) s = obj e s" by (simp add: update_def Plant_update_self [OF s])
  }
  {
    assume c: "cls (obj e s) = Herbivore"
    show "alive (obj (Herbivore_act s ?e0) s)"
      unfolding Herbivore_act_def using act_pattern_alive [OF s0] al0 by simp
    have "s < length (heap (Herbivore_act s ?e0))"
      unfolding Herbivore_act_def by (rule act_pattern_length [OF al0 s0])
    from obj_survive [OF this] c
    show "obj (update s e) s =
                    (if energy (obj (Herbivore_act s ?e0) s) \<le> 0
                     then (obj (Herbivore_act s ?e0) s)\<lparr>alive := False\<rparr>
                     else obj (Herbivore_act s ?e0) s)"
      by (simp add: update_def Herbivore_update_def)
  }
  {
    assume c: "cls (obj e s) = Carnivore"
    show "alive (obj (Carnivore_act s ?e0) s)"
      unfolding Carnivore_act_def using act_pattern_alive [OF s0] al0 by simp
    have "s < length (heap (Carnivore_act s ?e0))"
      unfolding Carnivore_act_def by (rule act_pattern_length [OF al0 s0])
    from obj_survive [OF this] c
    show "obj (update s e) s =
                    (if energy (obj (Carnivore_act s ?e0) s) \<le> 0
                     then (obj (Carnivore_act s ?e0) s)\<lparr>alive := False\<rparr>
                     else obj (Carnivore_act s ?e0) s)"
      by (simp add: update_def Carnivore_update_def)
  }
qed

theorem dead_is_frozen_witness:
  "refs_ok eaten_state \<and> 1 < length (heap eaten_state) \<and> \<not> alive (obj eaten_state 1)
   \<and> set [0] \<subseteq> set (organisms eaten_state)
   \<and> obj (run_ticks 2 (commit (act_all [0] eaten_state))) 1 = obj eaten_state 1
   \<and> obj (run_ticks 3 eaten_state) 1 = (Plant_init 1 0)\<lparr>alive := False\<rparr>
   \<and> refs_ok grazing_state \<and> 0 < length (heap grazing_state) \<and> 1 < length (heap grazing_state)
   \<and> alive (obj grazing_state 0) \<and> cls (obj grazing_state 0) = Herbivore
   \<and> turn 0 grazing_state = eaten_state
   \<and> obj (turn 0 grazing_state) 1 = (obj grazing_state 1)\<lparr>alive := False\<rparr>
   \<and> alive (obj (Herbivore_act 0 (Animal_update 0 grazing_state)) 0)"
proof -
  have h1: "refs_ok eaten_state" by (simp add: refs_ok_def eaten_state_def grazing_state_def)
  have h2: "1 < length (heap eaten_state)" by (simp add: eaten_state_def grazing_state_def)
  have h3: "\<not> alive (obj eaten_state 1)" by (simp add: eaten_state_def grazing_state_def obj_def)
  have h4: "set [0] \<subseteq> set (organisms eaten_state)" by (simp add: eaten_state_def grazing_state_def)
  have h5: "obj eaten_state 1 = (Plant_init 1 0)\<lparr>alive := False\<rparr>"
    by (simp add: eaten_state_def grazing_state_def obj_def)
  have g1: "refs_ok grazing_state" by (simp add: refs_ok_def grazing_state_def)
  have g2: "0 < length (heap grazing_state)" "1 < length (heap grazing_state)"
    by (simp_all add: grazing_state_def)
  have g3: "alive (obj grazing_state 0)" "cls (obj grazing_state 0) = Herbivore"
    by (simp_all add: grazing_state_def obj_def Herbivore_init_def)
  have g4: "obj grazing_state 1 = Plant_init 1 0" by (simp add: grazing_state_def obj_def)
  from dead_is_frozen [OF h1] h2 h3 h4
  have a: "obj (run_ticks 2 (commit (act_all [0] eaten_state))) 1 = obj eaten_state 1"
    and b: "obj (run_ticks 3 eaten_state) 1 = obj eaten_state 1"
    by blast+
  from dead_is_frozen [OF g1] g2 have
    "obj (turn 0 grazing_state) 1 = obj grazing_state 1
      \<or> (alive (obj grazing_state 1) \<and> obj (turn 0 grazing_state) 1 = (obj grazing_state 1)\<lparr>alive := False\<rparr>)"
    by (metis zero_neq_one)
  with h3 have c: "obj (turn 0 grazing_state) 1 = (obj grazing_state 1)\<lparr>alive := False\<rparr>"
    by (auto simp: grazing_turn)
  from dead_is_frozen [OF g1] g2 g3
  have d: "alive (obj (Herbivore_act 0 (Animal_update 0 grazing_state)) 0)" by blast
  from a b c d h1 h2 h3 h4 h5 g1 g2 g3 grazing_turn show ?thesis by simp
qed


section \<open>Newborns as prey\<close>

lemma random_choice_can_pick:
  assumes "b \<in> set xs"
  shows "\<exists>g. random_choice xs g = (b, g\<lparr>cursor := Suc (cursor g)\<rparr>)"
proof -
  from assms obtain i where i: "i < length xs" "xs ! i = b" by (auto simp: in_set_conv_nth)
  let ?g = "\<lparr>outputs = (\<lambda>n. i), cursor = 0\<rparr>"
  from i have "random_choice xs ?g = (b, ?g\<lparr>cursor := Suc (cursor ?g)\<rparr>)"
    by (simp add: random_choice_def randbelow_def next_raw_def)
  then show ?thesis by blast
qed

lemma eat_call_can_pick:
  assumes "b \<in> set (get_adjacent_organisms e (org_x (obj e self)) (org_y (obj e self)) c)"
  shows "\<exists>g. eat_call self c (e\<lparr>rng := g\<rparr>) = Some (b, e\<lparr>rng := g\<lparr>cursor := Suc (cursor g)\<rparr>\<rparr>)"
proof -
  let ?ps = "get_adjacent_organisms e (org_x (obj e self)) (org_y (obj e self)) c"
  from random_choice_can_pick [OF assms] obtain g where
    g: "random_choice ?ps g = (b, g\<lparr>cursor := Suc (cursor g)\<rparr>)" by blast
  from assms have "?ps \<noteq> []" by auto
  with g have "eat_call self c (e\<lparr>rng := g\<rparr>) = Some (b, e\<lparr>rng := g\<lparr>cursor := Suc (cursor g)\<rparr>\<rparr>)"
    by (simp add: eat_call_def)
  then show ?thesis by blast
qed

lemma eat_chosen:
  assumes call: "eat_call self c e = Some (b, e1)"
    and ok: "refs_ok e" and self: "self < length (heap e)"
  shows "fst (eat self c gain e)"
    and "obj (snd (eat self c gain e)) b = (obj e b)\<lparr>alive := False\<rparr>"
    and "temp_removed_organisms (snd (eat self c gain e)) = temp_removed_organisms e @ [b]"
    and "obj (snd (eat self c gain e)) self =
           (obj e self)\<lparr>org_x := org_x (obj e b), org_y := org_y (obj e b),
                        energy := energy (obj e self) + gain\<rparr>"
    and "organisms (snd (eat self c gain e)) = organisms e"
    and "temp_added_organisms (snd (eat self c gain e)) = temp_added_organisms e"
proof -
  from eat_call_Some [OF call] obtain g where
    p: "b \<in> set (get_adjacent_organisms e (org_x (obj e self)) (org_y (obj e self)) c)"
    and e1: "e1 = e\<lparr>rng := g\<rparr>" by blast
  from p have ne: "b \<noteq> self" by (rule prey_not_self)
  from p ok have lt: "b < length (heap e)"
    by (auto simp: in_get_adjacent_organisms refs_ok_def)
  have e': "snd (eat self c gain e) =
      modify self (\<lambda>ob. ob\<lparr>energy := energy ob + gain\<rparr>)
        (remove_organism (move_organism (e\<lparr>rng := g\<rparr>) self (org_x (obj e b)) (org_y (obj e b))) b)"
    by (simp add: eat_def call e1)
  show "fst (eat self c gain e)" by (simp add: eat_def call)
  show "obj (snd (eat self c gain e)) b = (obj e b)\<lparr>alive := False\<rparr>"
    using ne lt by (simp add: e' obj_modify obj_remove_organism obj_move_organism)
  show "temp_removed_organisms (snd (eat self c gain e)) = temp_removed_organisms e @ [b]"
    by (simp add: e')
  show "obj (snd (eat self c gain e)) self =
           (obj e self)\<lparr>org_x := org_x (obj e b), org_y := org_y (obj e b),
                        energy := energy (obj e self) + gain\<rparr>"
    using ne self by (simp add: e' obj_modify obj_remove_organism obj_move_organism)
  show "organisms (snd (eat self c gain e)) = organisms e" by (simp add: e')
  show "temp_added_organisms (snd (eat self c gain e)) = temp_added_organisms e" by (simp add: e')
qed

lemma commit_organisms_origin:
  assumes "r \<in> set (organisms (commit e))"
  shows "r \<in> set (organisms e) \<or> (r \<in> set (temp_added_organisms e) \<and> alive (obj e r))"
proof -
  let ?e1 = "commit_births (temp_added_organisms e) e"
  let ?e2 = "commit_deaths (temp_removed_organisms ?e1) ?e1"
  have "organisms (commit e) = organisms ?e2" by (simp add: commit_def Let_def)
  with assms commit_deaths_effect [of "temp_removed_organisms ?e1" ?e1]
  have "r \<in> set (organisms ?e1)" by auto
  with commit_births_effect [of "temp_added_organisms e" e] show ?thesis by auto
qed


text \<open>
  Claim C4. In every state, \<open>get_organism_at e px py\<close> returns exactly the references held in
  main storage or in the birth queue whose object is at \<open>(px, py)\<close> and alive, and nothing it
  returns is dead. An alive organism \<open>b\<close> in the birth queue is returned for its cell and is
  listed by \<open>get_adjacent_organisms\<close> as prey of its class for every neighbour \<open>self\<close>. It
  can be eaten in the tick of its birth: some outcome of the generator makes \<open>eat\<close> of such a
  neighbour choose \<open>b\<close>, and whenever the choice falls on \<open>b\<close>, \<open>eat\<close> succeeds, clears the
  alive flag of \<open>b\<close> and nothing else of it, appends \<open>b\<close> to the queue of deaths, puts the
  predator on the cell of \<open>b\<close> with the eat gain added; afterwards no query returns \<open>b\<close>, and
  the commit of that state does not bring \<open>b\<close> into main storage.
\<close>

theorem get_organism_at_exact:
  "set (get_organism_at e px py) =
     {r \<in> set (organisms e) \<union> set (temp_added_organisms e).
        org_x (obj e r) = px \<and> org_y (obj e r) = py \<and> alive (obj e r)}
   \<and> (\<forall>r \<in> set (get_organism_at e px py). alive (obj e r))
   \<and> (\<forall>b \<in> set (temp_added_organisms e). alive (obj e b) \<longrightarrow>
         b \<in> set (get_organism_at e (org_x (obj e b)) (org_y (obj e b)))
         \<and> (\<forall>self. (org_x (obj e b), org_y (obj e b))
                      \<in> set (get_adjacent_cells e (org_x (obj e self)) (org_y (obj e self))) \<longrightarrow>
               b \<in> set (get_adjacent_organisms e (org_x (obj e self)) (org_y (obj e self))
                          (cls (obj e b)))
               \<and> (\<exists>g. eat_call self (cls (obj e b)) (e\<lparr>rng := g\<rparr>)
                         = Some (b, e\<lparr>rng := g\<lparr>cursor := Suc (cursor g)\<rparr>\<rparr>))
               \<and> (refs_ok e \<and> self < length (heap e) \<longrightarrow>
                    (\<forall>gain g e1. eat_call self (cls (obj e b)) (e\<lparr>rng := g\<rparr>) = Some (b, e1) \<longrightarrow>
                       fst (eat self (cls (obj e b)) gain (e\<lparr>rng := g\<rparr>))
                       \<and> obj (snd (eat self (cls (obj e b)) gain (e\<lparr>rng := g\<rparr>))) b
                           = (obj e b)\<lparr>alive := False\<rparr>
                       \<and> temp_removed_organisms (snd (eat self (cls (obj e b)) gain (e\<lparr>rng := g\<rparr>)))
                           = temp_removed_organisms e @ [b]
                       \<and> obj (snd (eat self (cls (obj e b)) gain (e\<lparr>rng := g\<rparr>))) self
                           = (obj e self)\<lparr>org_x := org_x (obj e b), org_y := org_y (obj e b),
                                          energy := energy (obj e self) + gain\<rparr>
                       \<and> (\<forall>qx qy. b \<notin> set (get_organism_at
                              (snd (eat self (cls (obj e b)) gain (e\<lparr>rng := g\<rparr>))) qx qy))
                       \<and> (b \<notin> set (organisms e) \<longrightarrow>
                            b \<notin> set (organisms
                              (commit (snd (eat self (cls (obj e b)) gain (e\<lparr>rng := g\<rparr>))))))))))"
proof (intro conjI ballI impI allI)
  show "set (get_organism_at e px py) =
     {r \<in> set (organisms e) \<union> set (temp_added_organisms e).
        org_x (obj e r) = px \<and> org_y (obj e r) = py \<and> alive (obj e r)}"
    by (auto simp: in_get_organism_at)
next
  fix r assume "r \<in> set (get_organism_at e px py)"
  then show "alive (obj e r)" by (simp add: in_get_organism_at)
next
  fix b assume b: "b \<in> set (temp_added_organisms e)" "alive (obj e b)"
  then show "b \<in> set (get_organism_at e (org_x (obj e b)) (org_y (obj e b)))"
    by (simp add: in_get_organism_at)
  fix self
  assume adj: "(org_x (obj e b), org_y (obj e b))
      \<in> set (get_adjacent_cells e (org_x (obj e self)) (org_y (obj e self)))"
  with b show inl: "b \<in> set (get_adjacent_organisms e (org_x (obj e self)) (org_y (obj e self))
      (cls (obj e b)))"
    by (simp add: in_get_adjacent_organisms)
  from eat_call_can_pick [OF inl]
  show "\<exists>g. eat_call self (cls (obj e b)) (e\<lparr>rng := g\<rparr>)
                         = Some (b, e\<lparr>rng := g\<lparr>cursor := Suc (cursor g)\<rparr>\<rparr>)" .
  fix gain g e1
  assume wf: "refs_ok e \<and> self < length (heap e)"
    and call: "eat_call self (cls (obj e b)) (e\<lparr>rng := g\<rparr>) = Some (b, e1)"
  let ?eg = "e\<lparr>rng := g\<rparr>"
  let ?e' = "snd (eat self (cls (obj e b)) gain ?eg)"
  from wf have ok: "refs_ok ?eg" and self: "self < length (heap ?eg)" by simp_all
  note ch = eat_chosen [OF call ok self, of gain]
  from ch(1) show "fst (eat self (cls (obj e b)) gain ?eg)" .
  from ch(2) show dead: "obj ?e' b = (obj e b)\<lparr>alive := False\<rparr>" by simp
  from ch(3) show "temp_removed_organisms ?e' = temp_removed_organisms e @ [b]" by simp
  from ch(4) show "obj ?e' self = (obj e self)\<lparr>org_x := org_x (obj e b), org_y := org_y (obj e b),
                                          energy := energy (obj e self) + gain\<rparr>" by simp
  show "b \<notin> set (get_organism_at ?e' qx qy)" for qx qy
    by (simp add: in_get_organism_at dead)
  assume nb: "b \<notin> set (organisms e)"
  show "b \<notin> set (organisms (commit ?e'))"
  proof
    assume "b \<in> set (organisms (commit ?e'))"
    from commit_organisms_origin [OF this] nb ch(5) show False by (simp add: dead)
  qed
qed

lemma newborn_eat_call:
  "eat_call 0 Herbivore newborn_state =
     Some (1, newborn_state\<lparr>rng := \<lparr>outputs = (\<lambda>n. n), cursor = 1\<rparr>\<rparr>)"
  by (simp add: eat_call_def newborn_state_def obj_def get_adjacent_organisms_def
      get_adjacent_cells_def DIRECTIONS_def Herbivore_init_def Carnivore_init_def
      random_choice_def randbelow_def next_raw_def Let_def)

theorem get_organism_at_exact_witness:
  "get_organism_at newborn_state 1 0 = [1]
   \<and> 1 \<in> set (temp_added_organisms newborn_state) \<and> alive (obj newborn_state 1)
   \<and> (1, 0) \<in> set (get_adjacent_cells newborn_state 0 0)
   \<and> refs_ok newborn_state \<and> 0 < length (heap newborn_state)
   \<and> 1 \<in> set (get_adjacent_organisms newborn_state 0 0 Herbivore)
   \<and> fst (eat 0 Herbivore CARNIVORE_EAT_GAIN newborn_state)
   \<and> \<not> alive (obj (snd (eat 0 Herbivore CARNIVORE_EAT_GAIN newborn_state)) 1)
   \<and> temp_removed_organisms (snd (eat 0 Herbivore CARNIVORE_EAT_GAIN newborn_state)) = [1]
   \<and> org_x (obj (snd (eat 0 Herbivore CARNIVORE_EAT_GAIN newborn_state)) 0) = 1
   \<and> energy (obj (snd (eat 0 Herbivore CARNIVORE_EAT_GAIN newborn_state)) 0) = 25 + 15
   \<and> get_organism_at (snd (eat 0 Herbivore CARNIVORE_EAT_GAIN newborn_state)) 1 0 = [0]
   \<and> 1 \<notin> set (organisms (commit (snd (eat 0 Herbivore CARNIVORE_EAT_GAIN newborn_state))))"
proof -
  let ?e' = "snd (eat 0 Herbivore CARNIVORE_EAT_GAIN newborn_state)"
  have h: "1 \<in> set (temp_added_organisms newborn_state)" "alive (obj newborn_state 1)"
    "org_x (obj newborn_state 1) = 1" "org_y (obj newborn_state 1) = 0"
    "cls (obj newborn_state 1) = Herbivore"
    "org_x (obj newborn_state 0) = 0" "org_y (obj newborn_state 0) = 0"
    "energy (obj newborn_state 0) = 25" "1 \<notin> set (organisms newborn_state)"
    "temp_removed_organisms newborn_state = []" "alive (obj newborn_state 0)"
    "organisms newborn_state = [0]" "temp_added_organisms newborn_state = [1]"
    by (simp_all add: newborn_state_def obj_def Herbivore_init_def Carnivore_init_def
        CARNIVORE_INITIAL_ENERGY_def)
  have adj: "(1, 0) \<in> set (get_adjacent_cells newborn_state 0 0)"
    by (simp add: get_adjacent_cells_def DIRECTIONS_def newborn_state_def)
  have at: "get_organism_at newborn_state 1 0 = [1]"
    by (simp add: get_organism_at_def newborn_state_def obj_def Herbivore_init_def Carnivore_init_def)
  have wf: "refs_ok newborn_state" "0 < length (heap newborn_state)"
    by (simp_all add: refs_ok_def newborn_state_def)
  have adj': "(org_x (obj newborn_state 1), org_y (obj newborn_state 1))
      \<in> set (get_adjacent_cells newborn_state (org_x (obj newborn_state 0))
                (org_y (obj newborn_state 0)))"
    using adj by (simp add: h del: One_nat_def)
  have call: "eat_call 0 (cls (obj newborn_state 1)) (newborn_state\<lparr>rng := rng newborn_state\<rparr>) =
      Some (1, newborn_state\<lparr>rng := \<lparr>outputs = (\<lambda>n. n), cursor = 1\<rparr>\<rparr>)"
    using newborn_eat_call by (simp add: h del: One_nat_def)
  note c = conjunct2 [OF conjunct2 [OF get_organism_at_exact [of newborn_state 1 0]]]
  note cb = c [rule_format, OF h(1) h(2)]
  note cs = conjunct2 [OF cb, rule_format, of 0, OF adj']
  have inl: "1 \<in> set (get_adjacent_organisms newborn_state 0 0 Herbivore)"
    using conjunct1 [OF cs] by (simp add: h del: One_nat_def)
  note eff = conjunct2 [OF conjunct2 [OF cs], rule_format, OF conjI [OF wf] call,
      of CARNIVORE_EAT_GAIN]
  have r: "fst (eat 0 Herbivore CARNIVORE_EAT_GAIN newborn_state)"
    "obj ?e' 1 = (obj newborn_state 1)\<lparr>alive := False\<rparr>"
    "temp_removed_organisms ?e' = [1]"
    "obj ?e' 0 = (obj newborn_state 0)\<lparr>org_x := 1, org_y := 0, energy := 25 + 15\<rparr>"
    "1 \<notin> set (organisms (commit ?e'))"
    using eff by (simp_all add: h CARNIVORE_EAT_GAIN_def del: One_nat_def)
  have lists: "organisms ?e' = [0]" "temp_added_organisms ?e' = [1]"
    using eat_chosen(5,6) [OF newborn_eat_call wf, of CARNIVORE_EAT_GAIN] h(12,13) by simp_all
  have at': "get_organism_at ?e' 1 0 = [0]"
    by (simp add: get_organism_at_def lists r(2,4) h del: One_nat_def)
  from r h(1,2) at adj wf inl at' show ?thesis by (simp del: One_nat_def)
qed

section \<open>Capacity\<close>

lemma card_grid_cells: "card (grid_cells e) = nat (width e) * nat (height e)"
  by (simp add: grid_cells_def card_cartesian_product)

lemma finite_grid_cells: "finite (grid_cells e)"
  by (simp add: grid_cells_def)

lemma drawn_cell_grid:
  "0 < width e \<Longrightarrow> 0 < height e \<Longrightarrow> drawn_cell e k \<in> grid_cells e"
  using drawn_cell_in_grid [of e k] by (cases "drawn_cell e k") (simp add: grid_cells_def)

lemma search_step:
  assumes "random_empty_cell e = Some y" and "0 < width e" and "0 < height e"
  shows "\<exists>c g. y = Inr (c, e\<lparr>initial_helper_set := insert c (initial_helper_set e), rng := g\<rparr>)
     \<and> c \<notin> initial_helper_set e \<and> c \<in> grid_cells e"
proof -
  from search_result [OF assms(1)] assms(2,3) obtain k e' where
    y: "y = Inr (drawn_cell e k, e')" and free: "drawn_cell e k \<notin> initial_helper_set e"
    by auto
  from random_empty_cell_result [OF assms(1)] y obtain g where
    "e' = e\<lparr>initial_helper_set := insert (drawn_cell e k) (initial_helper_set e), rng := g\<rparr>"
    by blast
  with y free drawn_cell_grid [OF assms(2,3), of k] show ?thesis by blast
qed

lemma populate_loop_cells:
  "populate_loop c n e = Some r \<Longrightarrow> 0 < width e \<Longrightarrow> 0 < height e \<Longrightarrow>
   initial_helper_set e \<subseteq> grid_cells e \<Longrightarrow>
     \<exists>e'. r = Inr e' \<and> width e' = width e \<and> height e' = height e
       \<and> initial_helper_set e' \<subseteq> grid_cells e
       \<and> card (initial_helper_set e') = card (initial_helper_set e) + n"
proof (induction n arbitrary: e)
  case 0
  then show ?case by auto
next
  case (Suc n)
  from Suc.prems(1) obtain y where y: "random_empty_cell e = Some y"
    by (cases "random_empty_cell e") auto
  from search_step [OF y Suc.prems(2,3)] obtain cell g where
    inr: "y = Inr (cell, e\<lparr>initial_helper_set := insert cell (initial_helper_set e), rng := g\<rparr>)"
    and free: "cell \<notin> initial_helper_set e" and ing: "cell \<in> grid_cells e"
    by blast
  let ?e1 = "e\<lparr>initial_helper_set := insert cell (initial_helper_set e), rng := g\<rparr>"
  let ?e3 = "(snd (alloc (construct c (fst cell) (snd cell)) ?e1))\<lparr>organisms :=
               organisms (snd (alloc (construct c (fst cell) (snd cell)) ?e1))
                 @ [fst (alloc (construct c (fst cell) (snd cell)) ?e1)]\<rparr>"
  from Suc.prems(1) y inr have rec: "populate_loop c n ?e3 = Some r"
    by (cases cell) (simp add: truthy_def case_prod_beta)
  have f: "width ?e3 = width e" "height ?e3 = height e"
    "initial_helper_set ?e3 = insert cell (initial_helper_set e)"
    by (simp_all add: alloc_def)
  have g3: "grid_cells ?e3 = grid_cells e" by (simp add: grid_cells_def f)
  have "insert cell (initial_helper_set e) \<subseteq> grid_cells e"
    using Suc.prems(4) ing by simp
  then have sub: "initial_helper_set ?e3 \<subseteq> grid_cells ?e3"
    unfolding f(3) g3 .
  have fin: "finite (initial_helper_set e)"
    by (rule finite_subset [OF Suc.prems(4) finite_grid_cells])
  have "card (insert cell (initial_helper_set e)) = Suc (card (initial_helper_set e))"
    using fin free by simp
  then have cd: "card (initial_helper_set ?e3) = Suc (card (initial_helper_set e))"
    unfolding f(3) .
  have d3: "0 < width ?e3" "0 < height ?e3"
    using Suc.prems(2,3) unfolding f(1,2) .
  from Suc.IH [OF rec d3 sub] obtain e' where
    "r = Inr e'" "width e' = width ?e3" "height e' = height ?e3"
    "initial_helper_set e' \<subseteq> grid_cells ?e3"
    "card (initial_helper_set e') = card (initial_helper_set ?e3) + n"
    by blast
  then have "r = Inr e'" "width e' = width e" "height e' = height e"
    "initial_helper_set e' \<subseteq> grid_cells e"
    "card (initial_helper_set e') = card (initial_helper_set e) + Suc n"
    unfolding g3 cd f(1,2) by simp_all
  then show ?case by blast
qed

lemma populate_cells:
  "populate c count e = Some r \<Longrightarrow> 0 < width e \<Longrightarrow> 0 < height e \<Longrightarrow>
   initial_helper_set e \<subseteq> grid_cells e \<Longrightarrow>
     \<exists>e'. r = Inr e' \<and> width e' = width e \<and> height e' = height e
       \<and> initial_helper_set e' \<subseteq> grid_cells e
       \<and> card (initial_helper_set e') = card (initial_helper_set e) + nat count"
  unfolding populate_def by (rule populate_loop_cells)

lemma populate_count:
  "populate c count e = Some (Inr e') \<Longrightarrow> length (organisms e') = length (organisms e) + nat count"
  unfolding populate_def by (rule populate_loop_count)

lemma Ecosystem_init_capacity:
  assumes "Ecosystem_init w h np nh nc ticks g = Some r" and "0 < w" and "0 < h"
  shows "\<exists>e. r = Inr e \<and> nat np + nat nh + nat nc \<le> nat w * nat h
     \<and> length (organisms e) = nat np + nat nh + nat nc"
proof -
  let ?e0 = "\<lparr>width = w, height = h, organisms = [], total_ticks = ticks,
                initial_helper_set = {}, temp_added_organisms = [],
                temp_removed_organisms = [], heap = [], rng = g\<rparr>"
  have d0: "0 < width ?e0" "0 < height ?e0" "initial_helper_set ?e0 \<subseteq> grid_cells ?e0"
    using assms(2,3) by simp_all
  have g0: "grid_cells ?e0 = {0..<w} \<times> {0..<h}" by (simp add: grid_cells_def)
  from assms(1) obtain r1 where p1: "populate Plant np ?e0 = Some r1"
    by (auto simp: Ecosystem_init_def split: option.splits)
  from populate_cells [OF p1 d0] obtain e1 where
    e1: "r1 = Inr e1" "width e1 = w" "height e1 = h" "initial_helper_set e1 \<subseteq> grid_cells ?e0"
      "card (initial_helper_set e1) = nat np"
    by auto
  have g1: "grid_cells e1 = grid_cells ?e0" by (simp add: grid_cells_def e1)
  from assms(1) p1 e1(1) obtain r2 where p2: "populate Herbivore nh e1 = Some r2"
    by (auto simp: Ecosystem_init_def split: option.splits)
  from populate_cells [OF p2] e1 g1 assms(2,3) obtain e2 where
    e2: "r2 = Inr e2" "width e2 = w" "height e2 = h" "initial_helper_set e2 \<subseteq> grid_cells ?e0"
      "card (initial_helper_set e2) = nat np + nat nh"
    by auto
  have g2: "grid_cells e2 = grid_cells ?e0" by (simp add: grid_cells_def e2)
  from assms(1) p1 e1(1) p2 e2(1) obtain r3 where p3: "populate Carnivore nc e2 = Some r3"
    by (auto simp: Ecosystem_init_def split: option.splits)
  from populate_cells [OF p3] e2 g2 assms(2,3) obtain e3 where
    e3: "r3 = Inr e3" "initial_helper_set e3 \<subseteq> grid_cells ?e0"
      "card (initial_helper_set e3) = nat np + nat nh + nat nc"
    by auto
  from assms(1) p1 e1(1) p2 e2(1) p3 e3(1) have r: "r = Inr (e3\<lparr>initial_helper_set := {}\<rparr>)"
    by (simp add: Ecosystem_init_def)
  from card_mono [OF finite_grid_cells e3(2)] e3(3)
  have cap: "nat np + nat nh + nat nc \<le> nat w * nat h"
    by (simp add: card_grid_cells)
  from populate_count [OF p1 [unfolded e1(1)]] populate_count [OF p2 [unfolded e2(1)]]
    populate_count [OF p3 [unfolded e3(1)]]
  have "length (organisms e3) = nat np + nat nh + nat nc" by simp
  with r cap show ?thesis by simp
qed


lemma stuck0_cell:
  "random_empty_cell stuck0 =
     Some (Inr ((0, 0), stuck0\<lparr>initial_helper_set := {(0, 0)}, rng := zero_rng\<lparr>cursor := 2\<rparr>\<rparr>))"
  apply (subst random_empty_cell.simps)
  apply (simp add: stuck0_def random_randint_def randbelow_def next_raw_def zero_rng_def)
  done

lemma stuck0_spawn:
  "populate_loop Plant (Suc n) stuck0 = populate_loop Plant n stuck_state"
  apply (simp add: stuck0_cell truthy_def)
  apply (simp add: stuck0_def stuck_state_def alloc_def)
  done

lemma stuck_state_draws: "drawn_cell stuck_state k \<in> initial_helper_set stuck_state"
  by (simp add: drawn_cell_def stuck_state_def zero_rng_def)

text \<open>
  Claim C7, as the code has it. The placement search is an unbounded retry loop. For positive
  dimensions it returns if and only if the generator at some point draws a cell that is not in
  the helper set; the cell returned is then inside the grid, was not in the helper set and is
  added to it. When every cell of the grid is in the helper set, the search never returns, and
  neither does a populate that still has an organism to place. populate never skips a spawn:
  when it returns, it has appended exactly as many organisms as it was asked for. Hence, for
  positive dimensions, whenever the constructor returns, it returns an ecosystem, the counts
  (a negative count being 0) add up to at most \<open>width * height\<close>, and the ecosystem holds exactly
  that many organisms; when the counts add up to more, the constructor never returns.
\<close>

theorem placement_search:
  assumes "0 < width e" and "0 < height e"
  shows "((\<exists>y. random_empty_cell e = Some y) \<longleftrightarrow> (\<exists>k. drawn_cell e k \<notin> initial_helper_set e))
     \<and> (\<forall>y. random_empty_cell e = Some y \<longrightarrow>
          (\<exists>c e'. y = Inr (c, e') \<and> c \<notin> initial_helper_set e
             \<and> 0 \<le> fst c \<and> fst c < width e \<and> 0 \<le> snd c \<and> snd c < height e
             \<and> initial_helper_set e' = insert c (initial_helper_set e)))
     \<and> ((\<forall>px py. 0 \<le> px \<and> px < width e \<and> 0 \<le> py \<and> py < height e \<longrightarrow>
            (px, py) \<in> initial_helper_set e) \<longrightarrow>
          random_empty_cell e = None \<and> (\<forall>c n. populate_loop c (Suc n) e = None))
     \<and> (\<forall>c n e'. populate_loop c n e = Some (Inr e') \<longrightarrow>
          length (organisms e') = length (organisms e) + n)
     \<and> (\<forall>w h np nh nc ticks g r.
          0 < w \<and> 0 < h \<and> Ecosystem_init w h np nh nc ticks g = Some r \<longrightarrow>
            (\<exists>e'. r = Inr e' \<and> nat np + nat nh + nat nc \<le> nat w * nat h
               \<and> length (organisms e') = nat np + nat nh + nat nc))
     \<and> (\<forall>w h np nh nc ticks g.
          0 < w \<and> 0 < h \<and> nat w * nat h < nat np + nat nh + nat nc \<longrightarrow>
            Ecosystem_init w h np nh nc ticks g = None)"
proof (intro conjI allI impI)
  show "(\<exists>y. random_empty_cell e = Some y) \<longleftrightarrow> (\<exists>k. drawn_cell e k \<notin> initial_helper_set e)"
  proof
    assume "\<exists>y. random_empty_cell e = Some y"
    then obtain y where "random_empty_cell e = Some y" ..
    from search_result [OF this] assms show "\<exists>k. drawn_cell e k \<notin> initial_helper_set e" by auto
  next
    assume "\<exists>k. drawn_cell e k \<notin> initial_helper_set e"
    then obtain k where "drawn_cell e k \<notin> initial_helper_set e" ..
    from search_returns [OF assms this] show "\<exists>y. random_empty_cell e = Some y" .
  qed
next
  fix y assume "random_empty_cell e = Some y"
  from search_result [OF this] assms obtain k e' where
    r: "y = Inr (drawn_cell e k, e')" "drawn_cell e k \<notin> initial_helper_set e"
      "initial_helper_set e' = insert (drawn_cell e k) (initial_helper_set e)"
    by auto
  with drawn_cell_in_grid [OF assms, of k]
  show "\<exists>c e'. y = Inr (c, e') \<and> c \<notin> initial_helper_set e
             \<and> 0 \<le> fst c \<and> fst c < width e \<and> 0 \<le> snd c \<and> snd c < height e
             \<and> initial_helper_set e' = insert c (initial_helper_set e)"
    by blast
next
  assume full: "\<forall>px py. 0 \<le> px \<and> px < width e \<and> 0 \<le> py \<and> py < height e \<longrightarrow>
            (px, py) \<in> initial_helper_set e"
  show none: "random_empty_cell e = None" by (rule full_never_returns [OF assms full])
  show "populate_loop c (Suc n) e = None" for c n by (simp add: none)
next
  fix c n e' assume "populate_loop c n e = Some (Inr e')"
  then show "length (organisms e') = length (organisms e) + n" by (rule populate_loop_count)
next
  fix w h np nh nc ticks g r
  assume "0 < w \<and> 0 < h \<and> Ecosystem_init w h np nh nc ticks g = Some r"
  then show "\<exists>e'. r = Inr e' \<and> nat np + nat nh + nat nc \<le> nat w * nat h
               \<and> length (organisms e') = nat np + nat nh + nat nc"
    using Ecosystem_init_capacity [of w h np nh nc ticks g r] by blast
next
  fix w h np nh nc ticks g
  assume a: "0 < w \<and> 0 < h \<and> nat w * nat h < nat np + nat nh + nat nc"
  show "Ecosystem_init w h np nh nc ticks g = None"
  proof (cases "Ecosystem_init w h np nh nc ticks g")
    case None
    then show ?thesis .
  next
    case (Some r)
    from Ecosystem_init_capacity [OF Some] a show ?thesis by auto
  qed
qed

theorem placement_search_witness:
  "0 < width seed0 \<and> 0 < height seed0 \<and> drawn_cell seed0 0 \<notin> initial_helper_set seed0
   \<and> (\<exists>y. random_empty_cell seed0 = Some y)
   \<and> 0 < width full_state \<and> 0 < height full_state
   \<and> random_empty_cell full_state = None \<and> populate_loop Plant (Suc 0) full_state = None
   \<and> Ecosystem_init 2 2 1 1 0 1 sample_rng = Some (Inr seeded_state)
   \<and> length (organisms seeded_state) = 2
   \<and> Ecosystem_init 1 1 2 0 0 1 sample_rng = None
   \<and> random_empty_cell stuck_state = None
   \<and> Ecosystem_init 2 2 2 0 0 1 zero_rng = None"
proof -
  have a: "0 < width seed0" "0 < height seed0" "drawn_cell seed0 0 \<notin> initial_helper_set seed0"
    by (simp_all add: seed0_def)
  note t0 = placement_search [OF a(1,2)]
  from conjunct1 [OF t0] a(3) have r1: "\<exists>y. random_empty_cell seed0 = Some y" by blast
  note tf = conjunct1 [OF conjunct2 [OF conjunct2 [OF placement_search [OF full_state_full(1,2)]]],
      rule_format, OF full_state_full(3) [rule_format]]
  from tf have r2: "random_empty_cell full_state = None \<and> populate_loop Plant (Suc 0) full_state = None"
    by blast
  note cap = conjunct1 [OF conjunct2 [OF conjunct2 [OF conjunct2 [OF conjunct2 [OF t0]]]],
      rule_format, of 2 2 1 1 0 1 sample_rng "Inr seeded_state"]
  have r3: "length (organisms seeded_state) = 2"
    using cap seeded_init by simp
  note over = conjunct2 [OF conjunct2 [OF conjunct2 [OF conjunct2 [OF conjunct2 [OF t0]]]],
      rule_format, of 1 1 2 0 0 1 sample_rng]
  have r4: "Ecosystem_init 1 1 2 0 0 1 sample_rng = None"
    using over by simp
  have s: "0 < width stuck_state" "0 < height stuck_state" by (simp_all add: stuck_state_def)
  from conjunct1 [OF placement_search [OF s]] stuck_state_draws
  have "\<not> (\<exists>y. random_empty_cell stuck_state = Some y)" by blast
  then have r5: "random_empty_cell stuck_state = None" by simp
  have "populate Plant 2 stuck0 = None"
    by (simp add: populate_def eval_nat_numeral stuck0_spawn r5 del: populate_loop.simps(2))
       (simp add: r5)
  then have r6: "Ecosystem_init 2 2 2 0 0 1 zero_rng = None"
    by (simp add: Ecosystem_init_def stuck0_def)
  from a r1 full_state_full(1,2) r2 seeded_init r3 r4 r5 r6 show ?thesis by blast
qed

section \<open>The run depends on the generator only through the outcomes it delivers\<close>

lemma same_draws_refl: "same_draws g g"
  by (simp add: same_draws_def)


lemma same_world_refl: "same_world e e"
  by (simp add: same_world_def same_draws_refl)


lemma same_worldI:
  "same_draws g1 g2 \<Longrightarrow> same_world (e\<lparr>rng := g1\<rparr>) (e\<lparr>rng := g2\<rparr>)"
  by (simp add: same_world_def)

lemma same_worldE:
  assumes "same_world e1 e2"
  obtains g where "e2 = e1\<lparr>rng := g\<rparr>" and "same_draws (rng e1) g"
  using assms unfolding same_world_def by metis

lemma next_raw_same:
  assumes "same_draws g1 g2"
  shows "fst (next_raw g1) = fst (next_raw g2)"
    and "same_draws (snd (next_raw g1)) (snd (next_raw g2))"
proof -
  from assms have a: "outputs g1 (cursor g1 + n) = outputs g2 (cursor g2 + n)" for n
    by (simp add: same_draws_def)
  from a [of 0] show "fst (next_raw g1) = fst (next_raw g2)" by (simp add: next_raw_def)
  from a show "same_draws (snd (next_raw g1)) (snd (next_raw g2))"
    using a by (simp add: next_raw_def same_draws_def) (metis add_Suc_right)
qed

lemma randbelow_same:
  assumes "same_draws g1 g2"
  shows "fst (randbelow n g1) = fst (randbelow n g2)"
    and "same_draws (snd (randbelow n g1)) (snd (randbelow n g2))"
  using next_raw_same [OF assms] by (simp_all add: randbelow_def case_prod_beta)

lemma random_random_same:
  assumes "same_draws g1 g2"
  shows "fst (random_random g1) = fst (random_random g2)"
    and "same_draws (snd (random_random g1)) (snd (random_random g2))"
  using next_raw_same [OF assms] by (simp_all add: random_random_def case_prod_beta)

lemma random_choice_same:
  assumes "same_draws g1 g2"
  shows "fst (random_choice xs g1) = fst (random_choice xs g2)"
    and "same_draws (snd (random_choice xs g1)) (snd (random_choice xs g2))"
  using randbelow_same [OF assms, of "length xs"] by (simp_all add: random_choice_def case_prod_beta)


lemma shuffle_loop_same:
  "same_draws g1 g2 \<Longrightarrow>
     fst (shuffle_loop k xs g1) = fst (shuffle_loop k xs g2)
     \<and> same_draws (snd (shuffle_loop k xs g1)) (snd (shuffle_loop k xs g2))"
proof (induction k arbitrary: xs g1 g2)
  case 0
  then show ?case by simp
next
  case (Suc k)
  note r = randbelow_same [OF Suc.prems, of "Suc k + 1"]
  from Suc.IH [OF r(2), of "swap xs (Suc k) (fst (randbelow (Suc k + 1) g1))"] r(1)
  show ?case by (simp add: case_prod_beta)
qed

lemma random_shuffle_same:
  assumes "same_draws g1 g2"
  shows "fst (random_shuffle xs g1) = fst (random_shuffle xs g2)"
    and "same_draws (snd (random_shuffle xs g1)) (snd (random_shuffle xs g2))"
  using shuffle_loop_same [OF assms, of "length xs - 1" xs] by (simp_all add: random_shuffle_def)


lemma rng_commute:
  "modify r f (e\<lparr>rng := g\<rparr>) = (modify r f e)\<lparr>rng := g\<rparr>"
  "remove_organism (e\<lparr>rng := g\<rparr>) r = (remove_organism e r)\<lparr>rng := g\<rparr>"
  "move_organism (e\<lparr>rng := g\<rparr>) r nx ny = (move_organism e r nx ny)\<lparr>rng := g\<rparr>"
  "add_organism (e\<lparr>rng := g\<rparr>) r = (add_organism e r)\<lparr>rng := g\<rparr>"
  "snd (alloc ob (e\<lparr>rng := g\<rparr>)) = (snd (alloc ob e))\<lparr>rng := g\<rparr>"
  "fst (alloc ob (e\<lparr>rng := g\<rparr>)) = fst (alloc ob e)"
  "Animal_update r (e\<lparr>rng := g\<rparr>) = (Animal_update r e)\<lparr>rng := g\<rparr>"
  by (simp_all add: modify_def remove_organism_def move_organism_def add_organism_def alloc_def
      Animal_update_def Let_def)

lemma same_world_rng_free:
  assumes "\<And>e g. f (e\<lparr>rng := g\<rparr>) = (f e)\<lparr>rng := g\<rparr>" and "\<And>e. rng (f e) = rng e"
    and "same_world e1 e2"
  shows "same_world (f e1) (f e2)"
proof -
  from assms(3) obtain g where e2: "e2 = e1\<lparr>rng := g\<rparr>" and d: "same_draws (rng e1) g"
    by (rule same_worldE)
  have "f e1 = (f e1)\<lparr>rng := rng e1\<rparr>" using assms(2) [of e1]
    by (metis ecosystem.surjective ecosystem.update_convs(9) ecosystem.select_convs(9))
  moreover have "f e2 = (f e1)\<lparr>rng := g\<rparr>" by (simp add: e2 assms(1))
  ultimately show ?thesis using same_worldI [OF d, of "f e1"] by simp
qed

lemma same_world_obj: "same_world e1 e2 \<Longrightarrow> obj e2 = obj e1"
  by (erule same_worldE) (simp add: fun_eq_iff)

lemma Plant_update_same:
  assumes "same_world e1 e2"
  shows "same_world (Plant_update self e1) (Plant_update self e2)"
proof -
  from assms obtain g where e2: "e2 = e1\<lparr>rng := g\<rparr>" and d: "same_draws (rng e1) g"
    by (rule same_worldE)
  note r = random_random_same [OF d]
  let ?cells = "get_adjacent_empty_cells e1 (org_x (obj e1 self)) (org_y (obj e1 self))"
  note c = random_choice_same [OF r(2), of ?cells]
  show ?thesis
  proof (cases "fst (random_random (rng e1)) < PLANT_REPRODUCTION_CHANCE \<and> ?cells \<noteq> []")
    case False
    then have "Plant_update self e1 = e1\<lparr>rng := snd (random_random (rng e1))\<rparr>"
      "Plant_update self e2 = e1\<lparr>rng := snd (random_random g)\<rparr>"
      using r(1) by (auto simp: Plant_update_def e2 Let_def case_prod_beta)
    with same_worldI [OF r(2)] show ?thesis by simp
  next
    case True
    let ?c1 = "random_choice ?cells (snd (random_random (rng e1)))"
    let ?c2 = "random_choice ?cells (snd (random_random g))"
    let ?x = "add_organism (snd (alloc (Plant_init (fst (fst ?c1)) (snd (fst ?c1))) e1)) (length (heap e1))"
    from True have "Plant_update self e1 = ?x\<lparr>rng := snd ?c1\<rparr>"
      by (simp add: Plant_update_def Let_def case_prod_beta rng_commute)
    moreover from True r(1) c(1) have "Plant_update self e2 = ?x\<lparr>rng := snd ?c2\<rparr>"
      by (simp add: Plant_update_def e2 Let_def case_prod_beta rng_commute)
    ultimately show ?thesis using same_worldI [OF c(2)] by simp
  qed
qed

lemma eat_same:
  assumes "same_world e1 e2"
  shows "fst (eat self c gain e1) = fst (eat self c gain e2)
     \<and> same_world (snd (eat self c gain e1)) (snd (eat self c gain e2))"
proof -
  from assms obtain g where e2: "e2 = e1\<lparr>rng := g\<rparr>" and d: "same_draws (rng e1) g"
    by (rule same_worldE)
  let ?ps = "get_adjacent_organisms e1 (org_x (obj e1 self)) (org_y (obj e1 self)) c"
  note ch = random_choice_same [OF d, of ?ps]
  show ?thesis
  proof (cases "?ps = []")
    case True
    then have "eat self c gain e1 = (False, e1)" "eat self c gain e2 = (False, e2)"
      by (simp_all add: eat_def eat_call_def e2)
    with assms show ?thesis by simp
  next
    case False
    let ?p = "fst (random_choice ?ps (rng e1))"
    let ?x = "modify self (\<lambda>ob. ob\<lparr>energy := energy ob + gain\<rparr>)
        (remove_organism (move_organism e1 self (org_x (obj e1 ?p)) (org_y (obj e1 ?p))) ?p)"
    from False have "eat self c gain e1 = (True, ?x\<lparr>rng := snd (random_choice ?ps (rng e1))\<rparr>)"
      by (simp add: eat_def eat_call_def Let_def case_prod_beta rng_commute)
    moreover from False ch(1) have "eat self c gain e2 = (True, ?x\<lparr>rng := snd (random_choice ?ps g)\<rparr>)"
      by (simp add: eat_def eat_call_def e2 Let_def case_prod_beta rng_commute)
    ultimately show ?thesis using same_worldI [OF ch(2)] by simp
  qed
qed

lemma move_same:
  assumes "same_world e1 e2"
  shows "same_world (move self e1) (move self e2)"
proof -
  from assms obtain g where e2: "e2 = e1\<lparr>rng := g\<rparr>" and d: "same_draws (rng e1) g"
    by (rule same_worldE)
  let ?cells = "get_adjacent_empty_cells e1 (org_x (obj e1 self)) (org_y (obj e1 self))"
  note ch = random_choice_same [OF d, of ?cells]
  show ?thesis
  proof (cases "?cells = []")
    case True
    then have "move self e1 = e1" "move self e2 = e2"
      by (simp_all add: move_def move_call_def e2)
    with assms show ?thesis by simp
  next
    case False
    let ?c = "fst (random_choice ?cells (rng e1))"
    let ?x = "move_organism e1 self (fst ?c) (snd ?c)"
    from False have "move self e1 = ?x\<lparr>rng := snd (random_choice ?cells (rng e1))\<rparr>"
      by (simp add: move_def move_call_def Let_def case_prod_beta rng_commute)
    moreover from False ch(1) have "move self e2 = ?x\<lparr>rng := snd (random_choice ?cells g)\<rparr>"
      by (simp add: move_def move_call_def e2 Let_def case_prod_beta rng_commute)
    ultimately show ?thesis using same_worldI [OF ch(2)] by simp
  qed
qed

lemma reproduce_same:
  assumes "same_world e1 e2"
  shows "fst (reproduce self thr chance cost cc ce e1) = fst (reproduce self thr chance cost cc ce e2)
     \<and> same_world (snd (reproduce self thr chance cost cc ce e1))
                  (snd (reproduce self thr chance cost cc ce e2))"
proof -
  from assms obtain g where e2: "e2 = e1\<lparr>rng := g\<rparr>" and d: "same_draws (rng e1) g"
    by (rule same_worldE)
  note r = random_random_same [OF d]
  let ?cells = "get_adjacent_empty_cells e1 (org_x (obj e1 self)) (org_y (obj e1 self))"
  note c = random_choice_same [OF r(2), of ?cells]
  show ?thesis
  proof (cases "thr \<le> energy (obj e1 self)")
    case False
    then have "reproduce self thr chance cost cc ce e1 = (False, e1)"
      "reproduce self thr chance cost cc ce e2 = (False, e2)"
      by (simp_all add: reproduce_def e2)
    with assms show ?thesis by simp
  next
    case thr: True
    show ?thesis
    proof (cases "fst (random_random (rng e1)) < chance \<and> ?cells \<noteq> []")
      case False
      then have "reproduce self thr chance cost cc ce e1 = (False, e1\<lparr>rng := snd (random_random (rng e1))\<rparr>)"
        "reproduce self thr chance cost cc ce e2 = (False, e1\<lparr>rng := snd (random_random g)\<rparr>)"
        using r(1) thr by (auto simp: reproduce_def e2 Let_def case_prod_beta)
      with same_worldI [OF r(2)] show ?thesis by simp
    next
      case True
      let ?c1 = "random_choice ?cells (snd (random_random (rng e1)))"
      let ?c2 = "random_choice ?cells (snd (random_random g))"
      let ?x = "modify self (\<lambda>ob. ob\<lparr>energy := energy ob - cost\<rparr>)
          (add_organism
             (modify (length (heap e1)) (\<lambda>ob. ob\<lparr>energy := ce\<rparr>)
                (snd (alloc (construct cc (fst (fst ?c1)) (snd (fst ?c1))) e1)))
             (length (heap e1)))"
      from True thr have "reproduce self thr chance cost cc ce e1 = (True, ?x\<lparr>rng := snd ?c1\<rparr>)"
        by (simp add: reproduce_def Let_def case_prod_beta rng_commute)
      moreover from True thr r(1) c(1)
      have "reproduce self thr chance cost cc ce e2 = (True, ?x\<lparr>rng := snd ?c2\<rparr>)"
        by (simp add: reproduce_def e2 Let_def case_prod_beta rng_commute)
      ultimately show ?thesis using same_worldI [OF c(2)] by simp
    qed
  qed
qed

lemma survive_same:
  assumes "same_world e1 e2"
  shows "same_world (snd (survive self e1)) (snd (survive self e2))"
proof -
  from assms obtain g where e2: "e2 = e1\<lparr>rng := g\<rparr>" and d: "same_draws (rng e1) g"
    by (rule same_worldE)
  have "snd (survive self e2) = (snd (survive self e1))\<lparr>rng := g\<rparr>"
    by (simp add: survive_def e2 rng_commute)
  moreover have "snd (survive self e1) = (snd (survive self e1))\<lparr>rng := rng e1\<rparr>"
    by (simp add: survive_def)
  ultimately show ?thesis using same_worldI [OF d, of "snd (survive self e1)"] by simp
qed


lemma act_pattern_same:
  assumes "same_world e1 e2"
  shows "same_world
     (let (ate, a) = eat self c gain e1 in
      if ate then a
      else (let (bred, b) = reproduce self thr chance cost cc ce a
            in if bred then b else move self b))
     (let (ate, a) = eat self c gain e2 in
      if ate then a
      else (let (bred, b) = reproduce self thr chance cost cc ce a
            in if bred then b else move self b))"
proof -
  note e = eat_same [OF assms, of self c gain]
  let ?a1 = "snd (eat self c gain e1)" and ?a2 = "snd (eat self c gain e2)"
  note r = reproduce_same [OF conjunct2 [OF e], of self thr chance cost cc ce]
  let ?b1 = "snd (reproduce self thr chance cost cc ce ?a1)"
  let ?b2 = "snd (reproduce self thr chance cost cc ce ?a2)"
  note m = move_same [OF conjunct2 [OF r], of self]
  show ?thesis
  proof (cases "fst (eat self c gain e1)")
    case True
    with e show ?thesis by (simp add: case_prod_beta)
  next
    case False
    show ?thesis
    proof (cases "fst (reproduce self thr chance cost cc ce ?a1)")
      case True
      with False e r show ?thesis by (simp add: case_prod_beta)
    next
      case bred: False
      with False e r m show ?thesis by (simp add: case_prod_beta)
    qed
  qed
qed

lemma Animal_update_same:
  "same_world e1 e2 \<Longrightarrow> same_world (Animal_update self e1) (Animal_update self e2)"
  by (rule same_world_rng_free [where f = "Animal_update self"]) (simp_all add: rng_commute)

lemma update_same:
  assumes "same_world e1 e2"
  shows "same_world (update r e1) (update r e2)"
proof -
  note o = same_world_obj [OF assms]
  note a = Animal_update_same [OF assms, of r]
  show ?thesis
  proof (cases "cls (obj e1 r)")
    case Plant
    with o Plant_update_same [OF assms, of r] show ?thesis by (simp add: update_def)
  next
    case Herbivore
    have "same_world (Herbivore_act r (Animal_update r e1)) (Herbivore_act r (Animal_update r e2))"
      unfolding Herbivore_act_def by (rule act_pattern_same [OF a])
    from survive_same [OF this, of r] Herbivore o show ?thesis
      by (simp add: update_def Herbivore_update_def)
  next
    case Carnivore
    have "same_world (Carnivore_act r (Animal_update r e1)) (Carnivore_act r (Animal_update r e2))"
      unfolding Carnivore_act_def by (rule act_pattern_same [OF a])
    from survive_same [OF this, of r] Carnivore o show ?thesis
      by (simp add: update_def Carnivore_update_def)
  qed
qed

lemma turn_same: "same_world e1 e2 \<Longrightarrow> same_world (turn r e1) (turn r e2)"
  using update_same [of e1 e2 r] same_world_obj [of e1 e2] by (simp add: turn_def)

lemma act_all_same: "same_world e1 e2 \<Longrightarrow> same_world (act_all rs e1) (act_all rs e2)"
  by (induction rs arbitrary: e1 e2) (simp_all add: turn_same)

lemma commit_births_rng:
  "commit_births rs (e\<lparr>rng := g\<rparr>) = (commit_births rs e)\<lparr>rng := g\<rparr>"
proof (induction rs arbitrary: e)
  case Nil
  then show ?case by simp
next
  case (Cons r rs)
  have "(e\<lparr>organisms := organisms e @ [r]\<rparr>)\<lparr>rng := g\<rparr> = (e\<lparr>rng := g\<rparr>)\<lparr>organisms := organisms e @ [r]\<rparr>"
    by simp
  with Cons [of e] Cons [of "e\<lparr>organisms := organisms e @ [r]\<rparr>"] show ?case by simp
qed

lemma commit_deaths_rng:
  "commit_deaths rs (e\<lparr>rng := g\<rparr>) = (commit_deaths rs e)\<lparr>rng := g\<rparr>"
proof (induction rs arbitrary: e)
  case Nil
  then show ?case by simp
next
  case (Cons r rs)
  have "(e\<lparr>organisms := remove1 r (organisms e)\<rparr>)\<lparr>rng := g\<rparr>
      = (e\<lparr>rng := g\<rparr>)\<lparr>organisms := remove1 r (organisms e)\<rparr>"
    by simp
  with Cons [of e] Cons [of "e\<lparr>organisms := remove1 r (organisms e)\<rparr>"] show ?case by simp
qed

lemma commit_rng: "commit (e\<lparr>rng := g\<rparr>) = (commit e)\<lparr>rng := g\<rparr>"
proof -
  have t: "temp_removed_organisms (commit_births rs e) = temp_removed_organisms e" for rs
    using commit_births_effect [of rs e] by simp
  show ?thesis by (simp add: commit_def Let_def commit_births_rng commit_deaths_rng t)
qed

lemma commit_same: "same_world e1 e2 \<Longrightarrow> same_world (commit e1) (commit e2)"
  by (rule same_world_rng_free [where f = commit]) (simp_all add: commit_rng)

lemma tick_same:
  assumes "same_world e1 e2"
  shows "same_world (tick e1) (tick e2)"
proof -
  from assms obtain g where e2: "e2 = e1\<lparr>rng := g\<rparr>" and d: "same_draws (rng e1) g"
    by (rule same_worldE)
  note s = random_shuffle_same [OF d, of "organisms e1"]
  have "same_world (e1\<lparr>rng := snd (random_shuffle (organisms e1) (rng e1))\<rparr>)
      (e1\<lparr>rng := snd (random_shuffle (organisms e1) g)\<rparr>)"
    by (rule same_worldI [OF s(2)])
  from commit_same [OF act_all_same [OF this]] s(1) show ?thesis
    by (simp add: tick_unfold e2)
qed

lemma run_ticks_same: "same_world e1 e2 \<Longrightarrow> same_world (run_ticks n e1) (run_ticks n e2)"
  by (induction n arbitrary: e1 e2) (simp_all add: tick_same)



















end
